theory Spec2Isabelle
  imports Complex_Main
begin

section \<open>Python exceptions\<close>

text \<open>
  Every \<^verbatim>\<open>raise\<close> of the modelled code is a value of this type; a fallible function
  returns \<open>exn + 'a\<close> with \<open>Inl\<close> for the exception.
\<close>

datatype exn =
    HTTPError nat          \<comment> \<open>requests.exceptions.HTTPError with the response status\<close>
  | RequestException       \<comment> \<open>any other requests.exceptions.RequestException\<close>
  | ValueError
  | KeyError
  | RecursionError
  | DatabaseError          \<comment> \<open>an exception raised by the database through the SQL session\<close>
  | ArgumentError          \<comment> \<open>sqlalchemy.exc.ArgumentError\<close>

section \<open>Rate limiter (utils/rate\_limiter.py)\<close>

text \<open>
  Python floats are modelled as exact reals: the literals \<^verbatim>\<open>0.1\<close>, \<^verbatim>\<open>1.1\<close>, \<^verbatim>\<open>0.8\<close>,
  \<^verbatim>\<open>0.5\<close> and \<^verbatim>\<open>10.0\<close> are the fractions they denote. Only the state that the
  rate callbacks touch is kept; the lock and the clock of \<^verbatim>\<open>wait\<close> play no part in it.
\<close>

record RateLimiter =
  requests_per_second :: real
  min_interval :: real
  last_request_time :: real

definition RateLimiter_init :: "real \<Rightarrow> RateLimiter" where
  "RateLimiter_init rps =
     \<lparr>requests_per_second = rps,
      min_interval = (if rps > 0 then 1 / rps else 0),
      last_request_time = 0\<rparr>"

definition update_rate :: "real \<Rightarrow> RateLimiter \<Rightarrow> RateLimiter" where
  "update_rate rps l =
     l\<lparr>requests_per_second := rps,
       min_interval := (if rps > 0 then 1 / rps else 0)\<rparr>"

record AdaptiveRateLimiter =
  current_rate :: real
  min_rate :: real
  max_rate :: real
  base_limiter :: RateLimiter

definition AdaptiveRateLimiter_init :: "real \<Rightarrow> AdaptiveRateLimiter" where
  "AdaptiveRateLimiter_init initial_requests_per_second =
     \<lparr>current_rate = initial_requests_per_second,
      min_rate = 1 / 10,
      max_rate = 10,
      base_limiter = RateLimiter_init initial_requests_per_second\<rparr>"

definition on_success :: "AdaptiveRateLimiter \<Rightarrow> AdaptiveRateLimiter" where
  "on_success s =
     (let new_rate = min (max_rate s) (current_rate s * (11 / 10))
      in if new_rate \<noteq> current_rate s
         then s\<lparr>current_rate := new_rate,
                base_limiter := update_rate new_rate (base_limiter s)\<rparr>
         else s)"

text \<open>
  \<^verbatim>\<open>if retry_after:\<close> is Python truthiness on an \<^verbatim>\<open>Optional[int]\<close>: \<^verbatim>\<open>None\<close> and
  \<^verbatim>\<open>0\<close> both take the halving branch.
\<close>

definition retry_after_given :: "int option \<Rightarrow> bool" where
  "retry_after_given retry_after =
     (case retry_after of None \<Rightarrow> False | Some n \<Rightarrow> n \<noteq> 0)"

definition on_rate_limit_error :: "int option \<Rightarrow> AdaptiveRateLimiter \<Rightarrow> AdaptiveRateLimiter" where
  "on_rate_limit_error retry_after s =
     (let new_rate =
            (if retry_after_given retry_after
             then 1 / real_of_int (the retry_after)
             else max (min_rate s) (current_rate s * (1 / 2)))
      in s\<lparr>current_rate := new_rate,
            base_limiter := update_rate new_rate (base_limiter s)\<rparr>)"

definition on_error :: "AdaptiveRateLimiter \<Rightarrow> AdaptiveRateLimiter" where
  "on_error s =
     (let new_rate = max (min_rate s) (current_rate s * (8 / 10))
      in if new_rate \<noteq> current_rate s
         then s\<lparr>current_rate := new_rate,
                base_limiter := update_rate new_rate (base_limiter s)\<rparr>
         else s)"

definition get_current_rate :: "AdaptiveRateLimiter \<Rightarrow> real" where
  "get_current_rate s = current_rate s"

text \<open>A caller's sequence of callbacks on one limiter.\<close>

datatype limiter_call = OnSuccess | OnRateLimited "int option" | OnError

fun apply_call :: "AdaptiveRateLimiter \<Rightarrow> limiter_call \<Rightarrow> AdaptiveRateLimiter" where
  "apply_call s OnSuccess = on_success s"
| "apply_call s (OnRateLimited retry_after) = on_rate_limit_error retry_after s"
| "apply_call s OnError = on_error s"

definition run_calls :: "AdaptiveRateLimiter \<Rightarrow> limiter_call list \<Rightarrow> AdaptiveRateLimiter" where
  "run_calls s cs = foldl apply_call s cs"

fun supplies_retry_after :: "limiter_call \<Rightarrow> bool" where
  "supplies_retry_after (OnRateLimited retry_after) = retry_after_given retry_after"
| "supplies_retry_after _ = False"

section \<open>HTTP clients (utils/cratejoy\_client.py, utils/shopify\_client.py)\<close>

text \<open>
  The remote server is a function from the number of the attempt (the \<open>k\<close>-th call of
  \<^verbatim>\<open>session.request\<close> for one logical request) to what that attempt observes: a transport
  failure, or a response with its status, its \<^verbatim>\<open>Retry-After\<close> header and its content.
\<close>

text \<open>
  The \<^verbatim>\<open>Retry-After\<close> header: absent, a value that \<^verbatim>\<open>int()\<close> reads as the given integer,
  or a value that \<^verbatim>\<open>int()\<close> refuses (a date, a decimal fraction, any other text).
\<close>

datatype retry_header = NoHeader | IntHeader int | BadHeader

datatype 'j body = NoContent | JsonBody 'j | BadJson

datatype 'j http_outcome =
    TransportError
  | Response nat retry_header "'j body"

text \<open>What one call of \<^verbatim>\<open>_make_request\<close> does that the outside can see.\<close>

datatype event = Ev_wait | Ev_request | Ev_sleep int

text \<open>\<^verbatim>\<open>response.raise_for_status()\<close> raises for the 4xx and 5xx statuses.\<close>

definition raise_for_status :: "nat \<Rightarrow> bool" where
  "raise_for_status status = (400 \<le> status \<and> status < 600)"

text \<open>
  \<^verbatim>\<open>response.json() if response.content else {}\<close>: \<open>None\<close> is the empty dictionary; a
  body that does not decode raises inside \<^verbatim>\<open>requests\<close>.
\<close>

definition response_json :: "'j body \<Rightarrow> exn + 'j option" where
  "response_json content =
     (case content of
        NoContent \<Rightarrow> Inr None
      | JsonBody j \<Rightarrow> Inr (Some j)
      | BadJson \<Rightarrow> Inl RequestException)"

text \<open>
  \<^verbatim>\<open>CratejoyClient._make_request\<close>. On a 429 the handler sleeps 60 seconds and calls
  \<^verbatim>\<open>self._make_request\<close> again. The first argument is the number of nested activations
  the interpreter still allows (its recursion limit); when none is left the call raises
  \<open>RecursionError\<close>, which no handler of the method catches.
\<close>

fun cratejoy_make_request ::
  "nat \<Rightarrow> (nat \<Rightarrow> 'j http_outcome) \<Rightarrow> nat \<Rightarrow> (exn + 'j option) \<times> event list" where
  "cratejoy_make_request 0 server k = (Inl RecursionError, [])"
| "cratejoy_make_request (Suc depth) server k =
     (case server k of
        TransportError \<Rightarrow> (Inl RequestException, [Ev_wait, Ev_request])
      | Response status hdr content \<Rightarrow>
          if raise_for_status status then
            if status = 429 then
              (let (r, tr) = cratejoy_make_request depth server (Suc k)
               in (r, [Ev_wait, Ev_request, Ev_sleep 60] @ tr))
            else (Inl (HTTPError status), [Ev_wait, Ev_request])
          else (response_json content, [Ev_wait, Ev_request]))"

text \<open>
  \<^verbatim>\<open>int(response.headers.get('Retry-After', 2))\<close> followed by \<^verbatim>\<open>time.sleep\<close>: a header
  that is not an integer makes \<^verbatim>\<open>int\<close> raise, a negative one makes \<^verbatim>\<open>time.sleep\<close> raise.
\<close>

definition retry_after_seconds :: "retry_header \<Rightarrow> exn + int" where
  "retry_after_seconds hdr =
     (case hdr of
        NoHeader \<Rightarrow> Inr 2
      | IntHeader n \<Rightarrow> if n < 0 then Inl ValueError else Inr n
      | BadHeader \<Rightarrow> Inl ValueError)"

text \<open>
  \<^verbatim>\<open>ShopifyClient._make_request\<close>: the 429 test comes before \<^verbatim>\<open>raise_for_status\<close>, the
  sleep is the server's \<^verbatim>\<open>Retry-After\<close> (default 2), and the retry is again a recursive call.
\<close>

fun shopify_make_request ::
  "nat \<Rightarrow> (nat \<Rightarrow> 'j http_outcome) \<Rightarrow> nat \<Rightarrow> (exn + 'j option) \<times> event list" where
  "shopify_make_request 0 server k = (Inl RecursionError, [])"
| "shopify_make_request (Suc depth) server k =
     (case server k of
        TransportError \<Rightarrow> (Inl RequestException, [Ev_wait, Ev_request])
      | Response status hdr content \<Rightarrow>
          if status = 429 then
            (case retry_after_seconds hdr of
               Inl e \<Rightarrow> (Inl e, [Ev_wait, Ev_request])
             | Inr retry_after \<Rightarrow>
                 (let (r, tr) = shopify_make_request depth server (Suc k)
                  in (r, [Ev_wait, Ev_request, Ev_sleep retry_after] @ tr)))
          else if raise_for_status status then (Inl (HTTPError status), [Ev_wait, Ev_request])
          else (response_json content, [Ev_wait, Ev_request]))"

text \<open>Observations on a trace and on a server's answers.\<close>

fun is_sleep :: "event \<Rightarrow> bool" where
  "is_sleep (Ev_sleep n) = True"
| "is_sleep _ = False"

definition requests_sent :: "event list \<Rightarrow> nat" where
  "requests_sent tr = count_list tr Ev_request"

definition sleeps_taken :: "event list \<Rightarrow> nat" where
  "sleeps_taken tr = length (filter is_sleep tr)"

fun status_429 :: "'j http_outcome \<Rightarrow> bool" where
  "status_429 (Response status hdr content) = (status = 429)"
| "status_429 TransportError = False"

fun rate_limited :: "'j http_outcome \<Rightarrow> bool" where
  "rate_limited (Response status hdr content) =
     (status = 429 \<and> (case retry_after_seconds hdr of Inl e \<Rightarrow> False | Inr n \<Rightarrow> True))"
| "rate_limited TransportError = False"

text \<open>What either client returns for an attempt that is not answered by a 429.\<close>

fun final_result :: "'j http_outcome \<Rightarrow> exn + 'j option" where
  "final_result TransportError = Inl RequestException"
| "final_result (Response status hdr content) =
     (if raise_for_status status then Inl (HTTPError status) else response_json content)"

text \<open>A server that answers 429 to the first \<open>n\<close> attempts and 200 with a body afterwards.\<close>

definition busy_then_ok :: "nat \<Rightarrow> 'j \<Rightarrow> nat \<Rightarrow> 'j http_outcome" where
  "busy_then_ok n j k = (if k < n then Response 429 NoHeader NoContent else Response 200 NoHeader (JsonBody j))"

text \<open>The seconds the Shopify client sleeps after a 429 answer that it retries.\<close>

definition retry_after_of :: "'j http_outcome \<Rightarrow> int" where
  "retry_after_of outcome =
     (case outcome of
        Response status hdr content \<Rightarrow>
          (case retry_after_seconds hdr of Inr n \<Rightarrow> n | Inl e \<Rightarrow> 0)
      | TransportError \<Rightarrow> 0)"

text \<open>
  A server whose first three answers are 429, with \<^verbatim>\<open>Retry-After: 5\<close>, without the header,
  and with a header that is not a number, and whose fourth answer is 200 with a body.
\<close>

definition mixed_headers_server :: "nat \<Rightarrow> nat http_outcome" where
  "mixed_headers_server k =
     (if k = 0 then Response 429 (IntHeader 5) NoContent
      else if k = 1 then Response 429 NoHeader NoContent
      else if k = 2 then Response 429 BadHeader NoContent
      else Response 200 NoHeader (JsonBody 7))"

section \<open>Staging store and collectors (utils/customers.py, utils/orders.py)\<close>

subsection \<open>Source records and staging rows\<close>

text \<open>
  A record of the source API is a dictionary; the collector reads its \<^verbatim>\<open>id\<close> (and
  \<^verbatim>\<open>email\<close>, or \<^verbatim>\<open>customer_id\<close> for an order) and stores the whole dictionary as
  \<^verbatim>\<open>raw_data\<close>. \<open>None\<close> is an absent key; the other keys are the field \<open>c_rest\<close>.
\<close>

record 'p api_customer =
  c_id :: "int option"
  c_email :: "string option"
  c_rest :: 'p

record 'p api_order =
  o_id :: "int option"
  o_customer_id :: "int option"
  o_rest :: 'p

text \<open>
  The rows of \<^verbatim>\<open>cratejoy_customers\<close> and \<^verbatim>\<open>cratejoy_orders\<close>, with the columns the
  upsert statements name. A table is the list of its rows.
\<close>

record 'p customer_row =
  cratejoy_id :: int
  email :: string
  raw_data :: "'p api_customer"
  fetched_at :: nat

record 'p order_row =
  order_cratejoy_id :: int
  cratejoy_customer_id :: "int option"
  order_raw_data :: "'p api_order"
  order_fetched_at :: nat

text \<open>
  Modelled from the spec: the DDL of the staging tables is not among the sources; the
  specification gives each table the columns \<^verbatim>\<open>(natural_id unique, owner_id, payload,
  fetched_at)\<close>. \<^verbatim>\<open>ON CONFLICT (cratejoy_id)\<close> names that unique column, and this predicate
  is the constraint.
\<close>

definition unique_cratejoy_id :: "'p customer_row list \<Rightarrow> bool" where
  "unique_cratejoy_id tbl = distinct (map cratejoy_id tbl)"

definition unique_order_id :: "'p order_row list \<Rightarrow> bool" where
  "unique_order_id tbl = distinct (map order_cratejoy_id tbl)"

text \<open>
  \<^verbatim>\<open>INSERT INTO cratejoy_customers (cratejoy_id, email, raw_data, fetched_at)
  VALUES (:cid, :email, :data, NOW())
  ON CONFLICT (cratejoy_id) DO UPDATE SET raw_data = EXCLUDED.raw_data,
  email = EXCLUDED.email, fetched_at = EXCLUDED.fetched_at\<close>:
  a row with the key is rewritten in place, otherwise a row is added.
\<close>

definition upsert_customer ::
  "int \<Rightarrow> string \<Rightarrow> 'p api_customer \<Rightarrow> nat \<Rightarrow> 'p customer_row list \<Rightarrow> 'p customer_row list" where
  "upsert_customer cid em data now tbl =
     (if cid \<in> set (map cratejoy_id tbl)
      then map (\<lambda>r. if cratejoy_id r = cid
                      then r\<lparr>raw_data := data, email := em, fetched_at := now\<rparr>
                      else r) tbl
      else tbl @ [\<lparr>cratejoy_id = cid, email = em, raw_data = data, fetched_at = now\<rparr>])"

definition upsert_order ::
  "int \<Rightarrow> int option \<Rightarrow> 'p api_order \<Rightarrow> nat \<Rightarrow> 'p order_row list \<Rightarrow> 'p order_row list" where
  "upsert_order oid cid data now tbl =
     (if oid \<in> set (map order_cratejoy_id tbl)
      then map (\<lambda>r. if order_cratejoy_id r = oid
                      then r\<lparr>order_raw_data := data, cratejoy_customer_id := cid,
                             order_fetched_at := now\<rparr>
                      else r) tbl
      else tbl @ [\<lparr>order_cratejoy_id = oid, cratejoy_customer_id = cid,
                    order_raw_data = data, order_fetched_at = now\<rparr>])"

subsection \<open>Processing one page\<close>

text \<open>
  What the surroundings do while one page is processed is an oracle: which
  \<^verbatim>\<open>session.execute\<close> raises, whether that error leaves the transaction aborted (as an
  error reported by a PostgreSQL server does: every later statement of the transaction
  then raises, and a commit stores nothing), whether \<^verbatim>\<open>session.commit\<close> raises, the
  value of \<^verbatim>\<open>NOW()\<close>, and whether the progress callback raises when it is called with a
  given count of collected records (never, when no callback is passed).
\<close>

record 'p session_oracle =
  execute_raises :: "'p api_customer \<Rightarrow> bool"
  aborts_transaction :: "'p api_customer \<Rightarrow> bool"
  commit_raises :: bool
  now :: nat
  progress_raises :: "int \<Rightarrow> bool"

text \<open>\<^verbatim>\<open>if not customer_id\<close>: an absent id and the id 0 are both falsy.\<close>

definition falsy_id :: "int option \<Rightarrow> bool" where
  "falsy_id i = (case i of None \<Rightarrow> True | Some n \<Rightarrow> n = 0)"

definition email_or_empty :: "'p api_customer \<Rightarrow> string" where
  "email_or_empty c = (case c_email c of None \<Rightarrow> [] | Some e \<Rightarrow> e)"

text \<open>
  The \<^verbatim>\<open>for customer in customers\<close> loop of \<^verbatim>\<open>_process_customer_batch\<close>: the state is
  the uncommitted table, the two counters, and whether the transaction is aborted. The
  progress callback is called after every hundredth collected record, inside the handler of
  the record: when it raises, the record stays upserted and counted as collected, and is
  counted as failed as well.
\<close>

fun process_records ::
  "'p session_oracle \<Rightarrow> 'p api_customer list \<Rightarrow> 'p customer_row list \<times> int \<times> int \<times> bool
     \<Rightarrow> 'p customer_row list \<times> int \<times> int \<times> bool" where
  "process_records ora [] acc = acc"
| "process_records ora (customer # customers) (tbl, collected, failed, aborted) =
     (if falsy_id (c_id customer)
      then process_records ora customers (tbl, collected, failed + 1, aborted)
      else if aborted
      then process_records ora customers (tbl, collected, failed + 1, aborted)
      else if execute_raises ora customer
      then process_records ora customers
             (tbl, collected, failed + 1, aborts_transaction ora customer)
      else process_records ora customers
             (upsert_customer (the (c_id customer)) (email_or_empty customer) customer (now ora) tbl,
              collected + 1,
              (if (collected + 1) mod 100 = 0 \<and> progress_raises ora (collected + 1)
               then failed + 1 else failed),
              aborted))"

text \<open>
  \<^verbatim>\<open>_process_customer_batch\<close>: when the commit raises, the session is rolled back (the
  table is the one before the page), the local \<^verbatim>\<open>failed += len(customers)\<close> is lost with
  the frame, and the exception leaves the method. A commit that returns stores the
  upserted rows, or nothing when the transaction was aborted.
\<close>

definition process_customer_batch ::
  "'p session_oracle \<Rightarrow> 'p api_customer list \<Rightarrow> 'p customer_row list
     \<Rightarrow> (exn + int \<times> int) \<times> 'p customer_row list" where
  "process_customer_batch ora customers db =
     (case process_records ora customers (db, 0, 0, False) of
        (pending, collected, failed, aborted) \<Rightarrow>
          if commit_raises ora then (Inl DatabaseError, db)
          else (Inr (collected, failed), if aborted then db else pending))"

subsection \<open>The collection loop\<close>

text \<open>
  The \<^verbatim>\<open>next\<close> field of a page after \<^verbatim>\<open>_parse_next_page\<close>'s reading of it: absent or
  empty, carrying a page number, or present without a number that parses.
\<close>

datatype next_link = NoNext | NextPage int | Unparsable

fun parse_next_page :: "next_link \<Rightarrow> int \<Rightarrow> int" where
  "parse_next_page (NextPage n) current_page = n"
| "parse_next_page _ current_page = current_page + 1"

record 'p api_response =
  results :: "'p api_customer list"
  next_info :: next_link

text \<open>
  The surroundings of one run, by iteration of the \<^verbatim>\<open>while\<close> loop: the \<^verbatim>\<open>is_running\<close>
  flag (cleared by \<^verbatim>\<open>stop_collection\<close>), the stop callback (which may raise), the progress
  callback called before the fetch (\<open>Some e\<close> when it raises \<open>e\<close>; always \<open>None\<close> when no
  callback is passed), the result of \<^verbatim>\<open>get_customers(limit, page)\<close>, and the behaviour
  of the database and of the callback while that page is processed.
\<close>

record 'p collector_env =
  is_running :: "nat \<Rightarrow> bool"
  stop_callback :: "nat \<Rightarrow> exn + bool"
  progress_callback :: "nat \<Rightarrow> exn option"
  get_customers :: "nat \<Rightarrow> int \<Rightarrow> exn + 'p api_response"
  session :: "nat \<Rightarrow> 'p session_oracle"

record 'p collector_state =
  collected :: int
  failed :: int
  current_page :: int
  db :: "'p customer_row list"
  pages_fetched :: "int list"

record collection_summary =
  customers_collected :: int
  customers_failed :: int
  final_page :: int

datatype 'p outcome = Continue "'p collector_state" | Finished "'p collector_state" | Raised exn

text \<open>The inner \<^verbatim>\<open>except Exception\<close> handler of the loop.\<close>

definition page_failed :: "int \<Rightarrow> int \<Rightarrow> 'p collector_state \<Rightarrow> 'p outcome" where
  "page_failed batch_size start_page st =
     (let st' = st\<lparr>failed := failed st + batch_size, current_page := current_page st + 1\<rparr>
      in if current_page st' - start_page > 10 then Finished st' else Continue st')"

text \<open>
  One iteration of \<^verbatim>\<open>while self.is_running\<close> in \<^verbatim>\<open>collect_customers\<close>. The two callbacks
  are called outside the inner handler: what they raise leaves the run through the outer
  handler, which re-raises it.
\<close>

definition collect_step ::
  "'p collector_env \<Rightarrow> int \<Rightarrow> int \<Rightarrow> nat \<Rightarrow> 'p collector_state \<Rightarrow> 'p outcome" where
  "collect_step env batch_size start_page n st =
     (if \<not> is_running env n then Finished st
      else case stop_callback env n of
        Inl e \<Rightarrow> Raised e
      | Inr True \<Rightarrow> Finished st
      | Inr False \<Rightarrow>
          (case progress_callback env n of
             Some e \<Rightarrow> Raised e
           | None \<Rightarrow>
          (let st1 = st\<lparr>pages_fetched := pages_fetched st @ [current_page st]\<rparr>
           in case get_customers env n (current_page st) of
             Inl e \<Rightarrow> page_failed batch_size start_page st1
           | Inr response \<Rightarrow>
               if results response = [] then Finished st1
               else
                 (case process_customer_batch (session env n) (results response) (db st1) of
                    (Inl e, db') \<Rightarrow> page_failed batch_size start_page (st1\<lparr>db := db'\<rparr>)
                  | (Inr (batch_collected, batch_failed), db') \<Rightarrow>
                      (let st2 = st1\<lparr>collected := collected st1 + batch_collected,
                                       failed := failed st1 + batch_failed,
                                       db := db'\<rparr>
                       in if next_info response = NoNext then Finished st2
                          else Continue
                                 (st2\<lparr>current_page :=
                                        parse_next_page (next_info response) (current_page st2)\<rparr>))))))"

definition summary_of :: "'p collector_state \<Rightarrow> collection_summary" where
  "summary_of st =
     \<lparr>customers_collected = collected st, customers_failed = failed st,
      final_page = current_page st\<rparr>"

text \<open>
  The loop, with fuel for the iterations: \<open>None\<close> is a run that has not ended within the
  fuel. The result is the returned summary with the final state, or the exception that
  the outer handler re-raises.
\<close>

fun collect_loop ::
  "nat \<Rightarrow> 'p collector_env \<Rightarrow> int \<Rightarrow> int \<Rightarrow> nat \<Rightarrow> 'p collector_state
     \<Rightarrow> (exn + collection_summary \<times> 'p collector_state) option" where
  "collect_loop 0 env batch_size start_page n st = None"
| "collect_loop (Suc fuel) env batch_size start_page n st =
     (case collect_step env batch_size start_page n st of
        Raised e \<Rightarrow> Some (Inl e)
      | Finished st' \<Rightarrow> Some (Inr (summary_of st', st'))
      | Continue st' \<Rightarrow> collect_loop fuel env batch_size start_page (Suc n) st')"

definition collect_customers ::
  "nat \<Rightarrow> 'p collector_env \<Rightarrow> int \<Rightarrow> int \<Rightarrow> 'p customer_row list
     \<Rightarrow> (exn + collection_summary \<times> 'p collector_state) option" where
  "collect_customers fuel env batch_size start_page db0 =
     collect_loop fuel env batch_size start_page 0
       \<lparr>collected = 0, failed = 0, current_page = start_page, db = db0, pages_fetched = []\<rparr>"

subsection \<open>Concrete runs\<close>

definition customer_with_id :: "int \<Rightarrow> unit api_customer" where
  "customer_with_id i = \<lparr>c_id = Some i, c_email = Some ''a@b.c'', c_rest = ()\<rparr>"

definition healthy_session :: "nat \<Rightarrow> unit session_oracle" where
  "healthy_session n =
     \<lparr>execute_raises = (\<lambda>c. False), aborts_transaction = (\<lambda>c. False), commit_raises = False,
      now = n, progress_raises = (\<lambda>k. False)\<rparr>"

text \<open>
  A source with one customer on page 0 and nothing on page 1, and a database whose commit
  fails for the first page only.
\<close>

definition commit_fails_once_env :: "unit collector_env" where
  "commit_fails_once_env =
     \<lparr>is_running = (\<lambda>n. True),
      stop_callback = (\<lambda>n. Inr False),
      progress_callback = (\<lambda>n. None),
      get_customers = (\<lambda>n page.
         if page = 0 then Inr \<lparr>results = [customer_with_id 1], next_info = NextPage 1\<rparr>
         else Inr \<lparr>results = [], next_info = NoNext\<rparr>),
      session = (\<lambda>n. \<lparr>execute_raises = (\<lambda>c. False), aborts_transaction = (\<lambda>c. False),
                      commit_raises = (n = 0), now = n, progress_raises = (\<lambda>k. False)\<rparr>)\<rparr>"

text \<open>
  A source with one customer on every page and a link to the following page, whose page 10
  fails once with a transport error; the database is healthy.
\<close>

definition page_ten_fails_env :: "unit collector_env" where
  "page_ten_fails_env =
     \<lparr>is_running = (\<lambda>n. True),
      stop_callback = (\<lambda>n. Inr False),
      progress_callback = (\<lambda>n. None),
      get_customers = (\<lambda>n page.
         if page = 10 then Inl RequestException
         else Inr \<lparr>results = [customer_with_id (page + 1)], next_info = NextPage (page + 1)\<rparr>),
      session = healthy_session\<rparr>"

section \<open>Auditor (utils/audit\_tool.py)\<close>

text \<open>
  A Python \<^verbatim>\<open>set\<close> of ids is a HOL set. \<^verbatim>\<open>list(expected_ids)\<close> enumerates it in an order
  Python does not specify; the model takes the ascending one.
\<close>

subsection \<open>Batched containment lookup\<close>

text \<open>
  Modelled from the spec: \<^verbatim>\<open>contains_any(ids)\<close>, "given an arbitrary-size candidate id
  set, returns the subset present in storage". This is what the lookup is required to
  return, stated without any batching.
\<close>

definition contains_any_spec :: "'p customer_row list \<Rightarrow> int set \<Rightarrow> int set" where
  "contains_any_spec tbl ids = {i \<in> ids. i \<in> set (map cratejoy_id tbl)}"

text \<open>
  \<^verbatim>\<open>session.execute(text(f"SELECT ... WHERE cratejoy_id IN ({placeholders})"), batch)\<close> with
  \<^verbatim>\<open>batch\<close> a list of integers. The session takes the parameters of a statement as a
  dictionary (as every other query of the repository passes them, with \<^verbatim>\<open>:name\<close> in the
  text) or as a list of dictionaries; a non-empty list of integers is refused with
  \<open>ArgumentError\<close> before any SQL is sent, so the table is never read. With an empty list
  the statement would be sent without parameters and fail on \<^verbatim>\<open>IN ()\<close>.
\<close>

definition session_execute_in :: "'p customer_row list \<Rightarrow> int list \<Rightarrow> exn + int list" where
  "session_execute_in tbl batch = (if batch = [] then Inl DatabaseError else Inl ArgumentError)"

text \<open>
  \<^verbatim>\<open>for i in range(0, len(id_list), batch_size)\<close> with its body: the slice
  \<^verbatim>\<open>id_list[i:i + batch_size]\<close> is queried and the rows are added to \<^verbatim>\<open>all_db_ids\<close>; an
  exception of the query leaves the loop and the method.
\<close>

function db_ids_loop ::
  "'p customer_row list \<Rightarrow> int list \<Rightarrow> nat \<Rightarrow> nat \<Rightarrow> int set \<Rightarrow> exn + int set" where
  "db_ids_loop tbl id_list batch_size i all_db_ids =
     (if i < length id_list \<and> 0 < batch_size
      then (case session_execute_in tbl (take batch_size (drop i id_list)) of
              Inl e \<Rightarrow> Inl e
            | Inr rows \<Rightarrow>
                db_ids_loop tbl id_list batch_size (i + batch_size) (all_db_ids \<union> set rows))
      else Inr all_db_ids)"
  by pat_completeness auto
termination
  by (relation "measure (\<lambda>(tbl, id_list, batch_size, i, all_db_ids). length id_list - i)") auto

declare db_ids_loop.simps [simp del]

definition get_db_customer_ids_in_range :: "'p customer_row list \<Rightarrow> int set \<Rightarrow> exn + int set" where
  "get_db_customer_ids_in_range tbl expected_ids =
     (if expected_ids = {} then Inr {}
      else db_ids_loop tbl (sorted_list_of_set expected_ids) 999 0 {})"

subsection \<open>Range audit\<close>

record audit_progress =
  expected_customer_ids :: "int set"
  pages_audited :: "(int \<times> nat \<times> int set) list"
  api_errors :: "(int \<times> exn) list"
  total_api_records :: nat

text \<open>The ids of one page: \<^verbatim>\<open>if customer_id:\<close> drops absent and zero ids.\<close>

definition page_customer_ids :: "'p api_customer list \<Rightarrow> int set" where
  "page_customer_ids customers =
     set (map (\<lambda>c. the (c_id c)) (filter (\<lambda>c. \<not> falsy_id (c_id c)) customers))"

text \<open>
  \<^verbatim>\<open>for page in range(start_page, end_page + 1)\<close>: a page whose fetch raises is recorded and
  the loop goes on, an empty page ends the loop. The first argument gives, for a page, what
  \<^verbatim>\<open>get_customers(limit=batch_size, page=page)\<close> raises or the \<^verbatim>\<open>results\<close> it returns.
\<close>

fun audit_pages ::
  "(int \<Rightarrow> exn + 'p api_customer list) \<Rightarrow> int list \<Rightarrow> audit_progress \<Rightarrow> audit_progress" where
  "audit_pages api [] acc = acc"
| "audit_pages api (page # pages) acc =
     (case api page of
        Inl e \<Rightarrow> audit_pages api pages (acc\<lparr>api_errors := api_errors acc @ [(page, e)]\<rparr>)
      | Inr customers \<Rightarrow>
          if customers = [] then acc
          else audit_pages api pages
                 (acc\<lparr>expected_customer_ids :=
                        expected_customer_ids acc \<union> page_customer_ids customers,
                      pages_audited :=
                        pages_audited acc @ [(page, length customers, page_customer_ids customers)],
                      total_api_records := total_api_records acc + length customers\<rparr>))"

definition audit_start :: audit_progress where
  "audit_start =
     \<lparr>expected_customer_ids = {}, pages_audited = [], api_errors = [], total_api_records = 0\<rparr>"

record audit_results =
  r_pages_audited :: "(int \<times> nat \<times> int set) list"
  missing_from_db :: "int set"
  extra_in_db :: "int set"
  r_api_errors :: "(int \<times> exn) list"
  r_total_api_records :: nat
  total_db_records :: nat
  missing_count :: nat
  extra_count :: nat

text \<open>
  \<^verbatim>\<open>audit_page_range\<close>: the lookup of line 89 is outside every handler, so what it raises
  leaves the method and no report is returned.
\<close>

definition audit_page_range ::
  "(int \<Rightarrow> exn + 'p api_customer list) \<Rightarrow> 'p customer_row list \<Rightarrow> int \<Rightarrow> int
     \<Rightarrow> exn + audit_results" where
  "audit_page_range api tbl start_page end_page =
     (let acc = audit_pages api [start_page..end_page] audit_start;
          expected = expected_customer_ids acc
      in case get_db_customer_ids_in_range tbl expected of
           Inl e \<Rightarrow> Inl e
         | Inr db_customer_ids \<Rightarrow>
             (let missing_ids = expected - db_customer_ids;
                  extra_ids = db_customer_ids - expected
              in Inr \<lparr>r_pages_audited = pages_audited acc,
                      missing_from_db = missing_ids,
                      extra_in_db = extra_ids,
                      r_api_errors = api_errors acc,
                      r_total_api_records = total_api_records acc,
                      total_db_records = card db_customer_ids,
                      missing_count = card missing_ids,
                      extra_count = card extra_ids\<rparr>))"

text \<open>A staged row for an id, and a source whose page 0 holds the customer 1.\<close>

definition staged_row :: "int \<Rightarrow> unit customer_row" where
  "staged_row i = \<lparr>cratejoy_id = i, email = [], raw_data = customer_with_id i, fetched_at = 0\<rparr>"

definition one_customer_api :: "int \<Rightarrow> exn + unit api_customer list" where
  "one_customer_api page = (if page = 0 then Inr [customer_with_id 1] else Inr [])"

subsection \<open>Density overview\<close>

record page_stat =
  page_range :: "int \<times> int"
  record_count :: nat
  first_id :: int
  last_id :: int
  expected_count :: int

text \<open>
  \<^verbatim>\<open>for i in range(0, len(customer_ids), pages_per_chunk * 1000)\<close> over the ids in
  ascending order; \<open>step\<close> is \<^verbatim>\<open>pages_per_chunk * 1000\<close>. The \<^verbatim>\<open>page_range\<close> string
  \<^verbatim>\<open>"start-end"\<close> is the pair of its two numbers.
\<close>

function stats_loop :: "int list \<Rightarrow> nat \<Rightarrow> int \<Rightarrow> nat \<Rightarrow> page_stat list" where
  "stats_loop customer_ids step pages_per_chunk i =
     (if i < length customer_ids \<and> 0 < step
      then (let chunk_ids = take step (drop i customer_ids)
            in (if chunk_ids \<noteq> []
                then [\<lparr>page_range = (int (i div 1000), int (i div 1000) + pages_per_chunk - 1),
                       record_count = length chunk_ids,
                       first_id = hd chunk_ids,
                       last_id = last chunk_ids,
                       expected_count = pages_per_chunk * 1000\<rparr>]
                else [])
               @ stats_loop customer_ids step pages_per_chunk (i + step))
      else [])"
  by pat_completeness auto
termination
  by (relation "measure (\<lambda>(customer_ids, step, pages_per_chunk, i). length customer_ids - i)") auto

declare stats_loop.simps [simp del]

text \<open>
  \<^verbatim>\<open>get_database_stats_by_page_range\<close>: a step of zero makes \<^verbatim>\<open>range\<close> raise, a negative
  step gives an empty range.
\<close>

definition get_database_stats_by_page_range ::
  "int \<Rightarrow> 'p customer_row list \<Rightarrow> exn + page_stat list" where
  "get_database_stats_by_page_range pages_per_chunk tbl =
     (if pages_per_chunk = 0 then Inl ValueError
      else if pages_per_chunk < 0 then Inr []
      else Inr (stats_loop (sort (map cratejoy_id tbl)) (nat (pages_per_chunk * 1000))
                  pages_per_chunk 0))"

text \<open>
  The reading of the statistics in \<^verbatim>\<open>run_database_overview\<close> (app.py): the column
  \<^verbatim>\<open>Difference = record_count - expected_count\<close>, and the rows with a difference below
  \<open>-100\<close>, shown as "ranges with significant missing records".
\<close>

definition difference :: "page_stat \<Rightarrow> int" where
  "difference stat = int (record_count stat) - expected_count stat"

definition problems :: "page_stat list \<Rightarrow> page_stat list" where
  "problems stats = filter (\<lambda>row. difference row < - 100) stats"

text \<open>
  A staging table with the ids 1 to 5000 and 5201 to 20200: the 200 ids from 5001 to 5200
  are missing. In ascending order the first 10000 ids end at 10200.
\<close>

definition ids_before_10201 :: "int list" where
  "ids_before_10201 = [1..5000] @ [5201..10200]"

definition ids_from_10201 :: "int list" where
  "ids_from_10201 = [10201..20200]"

definition ids_with_gap :: "int list" where
  "ids_with_gap = ids_before_10201 @ ids_from_10201"

definition table_with_gap :: "unit customer_row list" where
  "table_with_gap = map staged_row ids_with_gap"

section \<open>Migration orchestrator (utils/shopify\_migrator.py)\<close>

text \<open>
  The target API and the field mapper are the surroundings of a migration unit. The API
  has a state of its own, so an answer may depend on every earlier call. \<open>'c\<close> is a staged
  customer, \<open>'o\<close> a staged order, \<open>'m\<close> a mapped payload, \<open>'s\<close> the state of the target.
  A created customer or order is the dictionary the client returns; of it the code reads
  \<^verbatim>\<open>['id']\<close>, which is \<open>None\<close> when the key is absent.
\<close>

record ('c, 'o, 'm, 's) shopify_env =
  map_customer :: "'c \<Rightarrow> exn + 'm"
  create_customer :: "'m \<Rightarrow> 's \<Rightarrow> (exn + int option) \<times> 's"
  add_customer_tags :: "int \<Rightarrow> 's \<Rightarrow> exn option \<times> 's"
  map_order :: "'o \<Rightarrow> int \<Rightarrow> exn + 'm"
  create_order :: "'m \<Rightarrow> 's \<Rightarrow> (exn + int option) \<times> 's"
  has_subscription_status :: "'c \<Rightarrow> bool"
  create_customer_metafield :: "int \<Rightarrow> 'c \<Rightarrow> 's \<Rightarrow> exn option \<times> 's"

text \<open>
  The assembled record of \<^verbatim>\<open>_assemble_customer_record\<close>; its \<^verbatim>\<open>subscriptions\<close> entry is
  always the empty list and is read only for a log line.
\<close>

record ('c, 'o) customer_data =
  cd_customer :: 'c
  cd_orders :: "'o list"

text \<open>What a unit does that the outside can see, in order.\<close>

datatype ('o, 'm) call =
    Call_create_customer 'm
  | Call_add_customer_tags int
  | Call_map_order 'o
  | Call_create_order 'm
  | Warn_order_failed 'o exn
  | Call_create_customer_metafield int

record ('o, 'm, 's) migration_result =
  success :: bool
  orders_migrated :: nat
  calls :: "('o, 'm) call list"
  target :: 's

text \<open>
  Step 3 of \<^verbatim>\<open>_migrate_single_customer\<close>, the \<^verbatim>\<open>for order in orders\<close> loop. Whatever the
  body raises for one order is caught, logged as a warning, and the loop goes on.
  \<^verbatim>\<open>orders_migrated\<close> is incremented before the log line that reads
  \<^verbatim>\<open>shopify_order['id']\<close>. A staged order is a dictionary (the collector read its
  \<^verbatim>\<open>id\<close> with \<^verbatim>\<open>get\<close> before storing it), so the handler's own \<^verbatim>\<open>order.get('id')\<close>
  does not raise.
\<close>

fun migrate_orders ::
  "('c, 'o, 'm, 's) shopify_env \<Rightarrow> int \<Rightarrow> 'o list \<Rightarrow> 's \<Rightarrow> nat \<times> ('o, 'm) call list \<times> 's" where
  "migrate_orders env shopify_customer_id [] s = (0, [], s)"
| "migrate_orders env shopify_customer_id (order # rest) s =
     (case map_order env order shopify_customer_id of
        Inl e \<Rightarrow>
          (case migrate_orders env shopify_customer_id rest s of
             (n, tr, s') \<Rightarrow> (n, [Call_map_order order, Warn_order_failed order e] @ tr, s'))
      | Inr shopify_order_data \<Rightarrow>
          (case create_order env shopify_order_data s of
             (Inl e, s1) \<Rightarrow>
               (case migrate_orders env shopify_customer_id rest s1 of
                  (n, tr, s') \<Rightarrow>
                    (n, [Call_map_order order, Call_create_order shopify_order_data,
                         Warn_order_failed order e] @ tr, s'))
           | (Inr shopify_order_id, s1) \<Rightarrow>
               (case migrate_orders env shopify_customer_id rest s1 of
                  (n, tr, s') \<Rightarrow>
                    (Suc n,
                     [Call_map_order order, Call_create_order shopify_order_data]
                       @ (if shopify_order_id = None then [Warn_order_failed order KeyError] else [])
                       @ tr, s'))))"

text \<open>
  \<^verbatim>\<open>_migrate_single_customer\<close>. The outer handler turns an exception of the mapping or the
  creation of the customer, or a created customer without \<^verbatim>\<open>id\<close>, into \<open>False\<close>; the
  tagging, the orders and the metafield have handlers of their own.
\<close>

definition migrate_single_customer ::
  "('c, 'o, 'm, 's) shopify_env \<Rightarrow> bool \<Rightarrow> ('c, 'o) customer_data \<Rightarrow> 's
     \<Rightarrow> ('o, 'm, 's) migration_result" where
  "migrate_single_customer env dry_run data s =
     (if dry_run then \<lparr>success = True, orders_migrated = 0, calls = [], target = s\<rparr>
      else case map_customer env (cd_customer data) of
        Inl e \<Rightarrow> \<lparr>success = False, orders_migrated = 0, calls = [], target = s\<rparr>
      | Inr shopify_customer_data \<Rightarrow>
          (case create_customer env shopify_customer_data s of
             (Inl e, s1) \<Rightarrow>
               \<lparr>success = False, orders_migrated = 0,
                calls = [Call_create_customer shopify_customer_data], target = s1\<rparr>
           | (Inr None, s1) \<Rightarrow>
               \<lparr>success = False, orders_migrated = 0,
                calls = [Call_create_customer shopify_customer_data], target = s1\<rparr>
           | (Inr (Some shopify_customer_id), s1) \<Rightarrow>
               (case add_customer_tags env shopify_customer_id s1 of
                  (tag_error, s2) \<Rightarrow>
                    (case migrate_orders env shopify_customer_id (cd_orders data) s2 of
                       (n, tr, s3) \<Rightarrow>
                         (if has_subscription_status env (cd_customer data)
                          then (case create_customer_metafield env shopify_customer_id
                                       (cd_customer data) s3 of
                                  (metafield_error, s4) \<Rightarrow>
                                    \<lparr>success = True, orders_migrated = n,
                                     calls = [Call_create_customer shopify_customer_data,
                                              Call_add_customer_tags shopify_customer_id]
                                             @ tr
                                             @ [Call_create_customer_metafield shopify_customer_id],
                                     target = s4\<rparr>)
                          else \<lparr>success = True, orders_migrated = n,
                                calls = [Call_create_customer shopify_customer_data,
                                         Call_add_customer_tags shopify_customer_id] @ tr,
                                target = s3\<rparr>)))))"

text \<open>
  The accounting of one unit in \<^verbatim>\<open>migrate_customers_atomic\<close>: a unit that cannot be
  assembled counts as failed, otherwise the result of \<^verbatim>\<open>_migrate_single_customer\<close> decides.
\<close>

definition migrate_unit ::
  "('c, 'o, 'm, 's) shopify_env \<Rightarrow> bool \<Rightarrow> ('c, 'o) customer_data option \<Rightarrow> nat \<times> nat \<times> 's
     \<Rightarrow> nat \<times> nat \<times> 's" where
  "migrate_unit env dry_run assembled acc =
     (case acc of (migrated, failed_units, s) \<Rightarrow>
        (case assembled of
           None \<Rightarrow> (migrated, failed_units + 1, s)
         | Some data \<Rightarrow>
             (let r = migrate_single_customer env dry_run data s
              in if success r then (migrated + 1, failed_units, target r)
                 else (migrated, failed_units + 1, target r))))"

text \<open>Observations on the calls of a unit.\<close>

fun orders_attempted :: "('o, 'm) call list \<Rightarrow> 'o list" where
  "orders_attempted [] = []"
| "orders_attempted (Call_map_order order # tr) = order # orders_attempted tr"
| "orders_attempted (c # tr) = orders_attempted tr"

fun create_order_calls :: "('o, 'm) call list \<Rightarrow> 'm list" where
  "create_order_calls [] = []"
| "create_order_calls (Call_create_order m # tr) = m # create_order_calls tr"
| "create_order_calls (c # tr) = create_order_calls tr"

fun orders_failed :: "('o, 'm) call list \<Rightarrow> 'o list" where
  "orders_failed [] = []"
| "orders_failed (Warn_order_failed order e # tr) = order # orders_failed tr"
| "orders_failed (c # tr) = orders_failed tr"

text \<open>The payloads of the orders whose mapping does not raise, in order.\<close>

fun mapped_orders :: "('c, 'o, 'm, 's) shopify_env \<Rightarrow> int \<Rightarrow> 'o list \<Rightarrow> 'm list" where
  "mapped_orders env shopify_customer_id [] = []"
| "mapped_orders env shopify_customer_id (order # rest) =
     (case map_order env order shopify_customer_id of
        Inl e \<Rightarrow> mapped_orders env shopify_customer_id rest
      | Inr m \<Rightarrow> m # mapped_orders env shopify_customer_id rest)"

text \<open>
  A target that numbers its calls and rejects the second \<^verbatim>\<open>create_order\<close> it receives;
  the mapper hands the staged values through.
\<close>

definition second_order_rejected :: "(int, int, int, nat) shopify_env" where
  "second_order_rejected =
     \<lparr>map_customer = (\<lambda>c. Inr c),
      create_customer = (\<lambda>m s. (Inr (Some 900), s)),
      add_customer_tags = (\<lambda>i s. (None, s)),
      map_order = (\<lambda>order i. Inr order),
      create_order = (\<lambda>m s. (if s = 1 then Inl (HTTPError 422) else Inr (Some (int s)), Suc s)),
      has_subscription_status = (\<lambda>c. False),
      create_customer_metafield = (\<lambda>i c s. (None, s))\<rparr>"

section \<open>Properties of the rate limiter\<close>

lemma min_rate_apply_call: "min_rate (apply_call s c) = min_rate s"
  by (cases c) (simp_all add: on_success_def on_error_def on_rate_limit_error_def Let_def)

lemma max_rate_apply_call: "max_rate (apply_call s c) = max_rate s"
  by (cases c) (simp_all add: on_success_def on_error_def on_rate_limit_error_def Let_def)

lemma apply_call_floor:
  assumes "\<not> supplies_retry_after c" and "min_rate s \<le> current_rate s"
    and "min_rate s \<le> max_rate s" and "0 < min_rate s"
  shows "min_rate s \<le> current_rate (apply_call s c)"
proof (cases c)
  case OnSuccess
  have "current_rate s \<le> current_rate s * (11 / 10)"
    using assms(2,4) by simp
  then have "min_rate s \<le> min (max_rate s) (current_rate s * (11 / 10))"
    using assms(2,3) by simp
  then show ?thesis
    using OnSuccess assms(2) by (simp add: on_success_def Let_def)
next
  case (OnRateLimited retry_after)
  then show ?thesis
    using assms(1) by (simp add: on_rate_limit_error_def Let_def)
next
  case OnError
  then show ?thesis
    using assms(2) by (simp add: on_error_def Let_def)
qed

lemma apply_call_positive:
  assumes "\<not> supplies_retry_after c" and "0 < current_rate s"
    and "0 < min_rate s" and "0 < max_rate s"
  shows "0 < current_rate (apply_call s c)"
proof (cases c)
  case OnSuccess
  then show ?thesis
    using assms(2,4) by (simp add: on_success_def Let_def)
next
  case (OnRateLimited retry_after)
  then show ?thesis
    using assms(1,3) by (simp add: on_rate_limit_error_def Let_def max_def)
next
  case OnError
  then show ?thesis
    using assms(2,3) by (simp add: on_error_def Let_def max_def)
qed

lemma apply_call_floor_after_decrease:
  assumes "c = OnError \<or> c = OnRateLimited retry_after" and "\<not> supplies_retry_after c"
  shows "min_rate s \<le> current_rate (apply_call s c)"
  using assms by (auto simp: on_error_def on_rate_limit_error_def Let_def)

lemma run_calls_min_rate: "min_rate (run_calls s cs) = min_rate s"
  unfolding run_calls_def by (induction cs arbitrary: s) (simp_all add: min_rate_apply_call)

lemma run_calls_max_rate: "max_rate (run_calls s cs) = max_rate s"
  unfolding run_calls_def by (induction cs arbitrary: s) (simp_all add: max_rate_apply_call)

lemma run_calls_floor:
  assumes "\<forall>c \<in> set cs. \<not> supplies_retry_after c" and "min_rate s \<le> current_rate s"
    and "min_rate s \<le> max_rate s" and "0 < min_rate s"
  shows "min_rate s \<le> current_rate (run_calls s cs)"
  using assms unfolding run_calls_def
proof (induction cs arbitrary: s)
  case Nil
  then show ?case by simp
next
  case (Cons c cs)
  have "min_rate (apply_call s c) \<le> current_rate (foldl apply_call (apply_call s c) cs)"
  proof (rule Cons.IH)
    show "\<forall>c \<in> set cs. \<not> supplies_retry_after c" using Cons.prems(1) by simp
    show "min_rate (apply_call s c) \<le> current_rate (apply_call s c)"
      using apply_call_floor [of c s] Cons.prems by (simp add: min_rate_apply_call)
    show "min_rate (apply_call s c) \<le> max_rate (apply_call s c)"
      using Cons.prems(3) by (simp add: min_rate_apply_call max_rate_apply_call)
    show "0 < min_rate (apply_call s c)"
      using Cons.prems(4) by (simp add: min_rate_apply_call)
  qed
  then show ?case by (simp add: min_rate_apply_call)
qed

lemma run_calls_positive:
  assumes "\<forall>c \<in> set cs. \<not> supplies_retry_after c" and "0 < current_rate s"
    and "0 < min_rate s" and "0 < max_rate s"
  shows "0 < current_rate (run_calls s cs)"
  using assms unfolding run_calls_def
proof (induction cs arbitrary: s)
  case Nil
  then show ?case by simp
next
  case (Cons c cs)
  have "0 < current_rate (foldl apply_call (apply_call s c) cs)"
  proof (rule Cons.IH)
    show "\<forall>c \<in> set cs. \<not> supplies_retry_after c" using Cons.prems(1) by simp
    show "0 < current_rate (apply_call s c)"
      using apply_call_positive [of c s] Cons.prems by simp
    show "0 < min_rate (apply_call s c)"
      using Cons.prems(3) by (simp add: min_rate_apply_call)
    show "0 < max_rate (apply_call s c)"
      using Cons.prems(4) by (simp add: max_rate_apply_call)
  qed
  then show ?case by simp
qed

lemma run_calls_snoc: "run_calls s (cs @ [c]) = apply_call (run_calls s cs) c"
  by (simp add: run_calls_def)

lemma run_calls_append: "run_calls s (as @ bs) = run_calls (run_calls s as) bs"
  by (simp add: run_calls_def)

lemma run_calls_floor_after_decrease:
  assumes "\<forall>c \<in> set cs. \<not> supplies_retry_after c" and "\<exists>c \<in> set cs. c \<noteq> OnSuccess"
    and "min_rate s \<le> max_rate s" and "0 < min_rate s"
  shows "min_rate s \<le> current_rate (run_calls s cs)"
proof -
  from assms(2) obtain as c bs where cs: "cs = as @ c # bs" and c: "c \<noteq> OnSuccess"
    by (meson split_list)
  let ?t = "run_calls s (as @ [c])"
  have nc: "\<not> supplies_retry_after c" using assms(1) cs by simp
  have "c = OnError \<or> c = OnRateLimited (case c of OnRateLimited r \<Rightarrow> r | _ \<Rightarrow> None)"
    using c by (cases c) simp_all
  then have "min_rate (run_calls s as) \<le> current_rate (apply_call (run_calls s as) c)"
    using nc by (rule apply_call_floor_after_decrease)
  then have t: "min_rate ?t \<le> current_rate ?t"
    by (simp add: run_calls_snoc min_rate_apply_call)
  have "min_rate ?t \<le> current_rate (run_calls ?t bs)"
  proof (rule run_calls_floor)
    show "\<forall>c \<in> set bs. \<not> supplies_retry_after c" using assms(1) cs by simp
    show "min_rate ?t \<le> current_rate ?t" by (rule t)
    show "min_rate ?t \<le> max_rate ?t" using assms(3) by (simp add: run_calls_min_rate run_calls_max_rate)
    show "0 < min_rate ?t" using assms(4) by (simp add: run_calls_min_rate)
  qed
  moreover have "run_calls ?t bs = run_calls s cs"
    by (simp add: cs run_calls_def)
  ultimately show ?thesis by (simp add: run_calls_min_rate)
qed

text \<open>
  C7 (as the code has it). The floor \<open>min_rate = 0.1\<close> is applied by \<^verbatim>\<open>on_error\<close> and by
  the halving branch of \<^verbatim>\<open>on_rate_limit_error\<close>, not by \<^verbatim>\<open>on_success\<close> nor by the
  constructor. So, for every finite sequence of callbacks none of which supplies a
  retry-after: a limiter started at or above the floor stays at or above it; a limiter
  started at any positive rate keeps a positive rate; and from any starting rate the rate is
  at or above the floor once the sequence contains an \<^verbatim>\<open>on_error\<close> or
  \<^verbatim>\<open>on_rate_limit_error\<close> call (three consecutive rate-limit calls in particular).
\<close>

theorem adaptive_rate_floor:
  assumes "\<forall>c \<in> set cs. \<not> supplies_retry_after c"
  shows "(1 / 10 \<le> r0 \<longrightarrow>
            min_rate (run_calls (AdaptiveRateLimiter_init r0) cs)
              \<le> current_rate (run_calls (AdaptiveRateLimiter_init r0) cs))
       \<and> (0 < r0 \<longrightarrow> 0 < current_rate (run_calls (AdaptiveRateLimiter_init r0) cs))
       \<and> ((\<exists>c \<in> set cs. c \<noteq> OnSuccess) \<longrightarrow>
            min_rate (run_calls (AdaptiveRateLimiter_init r0) cs)
              \<le> current_rate (run_calls (AdaptiveRateLimiter_init r0) cs))
       \<and> min_rate (run_calls (AdaptiveRateLimiter_init r0) cs) = 1 / 10"
proof -
  let ?s = "AdaptiveRateLimiter_init r0"
  have mn: "min_rate ?s = 1 / 10" and mx: "max_rate ?s = 10" and cr: "current_rate ?s = r0"
    by (simp_all add: AdaptiveRateLimiter_init_def)
  have a: "1 / 10 \<le> r0 \<Longrightarrow> min_rate (run_calls ?s cs) \<le> current_rate (run_calls ?s cs)"
    using run_calls_floor [of cs ?s] assms by (simp add: mn mx cr run_calls_min_rate)
  have b: "0 < r0 \<Longrightarrow> 0 < current_rate (run_calls ?s cs)"
    using run_calls_positive [of cs ?s] assms by (simp add: mn mx cr)
  have c: "\<exists>c \<in> set cs. c \<noteq> OnSuccess \<Longrightarrow>
             min_rate (run_calls ?s cs) \<le> current_rate (run_calls ?s cs)"
    using run_calls_floor_after_decrease [of cs ?s] assms by (simp add: mn mx run_calls_min_rate)
  have d: "min_rate (run_calls ?s cs) = 1 / 10"
    by (simp add: run_calls_min_rate mn)
  from a b c d show ?thesis by blast
qed

text \<open>
  The scenario of the specification: a limiter started at 2 requests per second and
  rate-limited three times without a retry-after ends at 0.25, above the floor.
\<close>

theorem adaptive_rate_floor_witness:
  "\<not> supplies_retry_after (OnRateLimited None)
   \<and> current_rate (run_calls (AdaptiveRateLimiter_init 2)
        [OnRateLimited None, OnRateLimited None, OnRateLimited None]) = 1 / 4
   \<and> min_rate (run_calls (AdaptiveRateLimiter_init 2)
        [OnRateLimited None, OnRateLimited None, OnRateLimited None])
      \<le> current_rate (run_calls (AdaptiveRateLimiter_init 2)
        [OnRateLimited None, OnRateLimited None, OnRateLimited None])
   \<and> 0 < current_rate (run_calls (AdaptiveRateLimiter_init 2)
        [OnRateLimited None, OnRateLimited None, OnRateLimited None])"
  using adaptive_rate_floor
    [of "[OnRateLimited None, OnRateLimited None, OnRateLimited None]" 2]
  by (simp add: run_calls_def on_rate_limit_error_def AdaptiveRateLimiter_init_def
      retry_after_given_def Let_def)

text \<open>
  C7 as stated fails for a positive starting rate below the floor: started at 0.05, one
  \<^verbatim>\<open>on_success\<close> gives 0.055, still below \<open>min_rate = 0.1\<close>.
\<close>

theorem adaptive_rate_floor_counterexample:
  "(0::real) < 1 / 20
   \<and> \<not> supplies_retry_after OnSuccess
   \<and> current_rate (run_calls (AdaptiveRateLimiter_init (1 / 20)) [OnSuccess]) = 11 / 200
   \<and> min_rate (run_calls (AdaptiveRateLimiter_init (1 / 20)) [OnSuccess]) = 1 / 10
   \<and> current_rate (run_calls (AdaptiveRateLimiter_init (1 / 20)) [OnSuccess])
       < min_rate (run_calls (AdaptiveRateLimiter_init (1 / 20)) [OnSuccess])"
  by (simp add: run_calls_def on_success_def AdaptiveRateLimiter_init_def Let_def)

text \<open>
  C10. For every positive integer \<open>retry_after\<close>, \<^verbatim>\<open>on_rate_limit_error(retry_after)\<close>
  sets the current rate (and the base limiter's rate) to exactly \<open>1 / retry_after\<close>, with no
  clamping: the result does not depend on \<open>min_rate\<close>, \<open>max_rate\<close> or the previous rate. With
  the configured floor of 0.1, any \<open>retry_after\<close> above 10 gives a rate strictly below the
  floor. The floor is applied in the other branch: without a retry-after the new rate is at
  least \<open>min_rate\<close>.
\<close>

theorem on_rate_limit_error_unclamped:
  assumes "0 < n"
  shows "current_rate (on_rate_limit_error (Some n) s) = 1 / real_of_int n
       \<and> requests_per_second (base_limiter (on_rate_limit_error (Some n) s)) = 1 / real_of_int n
       \<and> (10 < n \<and> min_rate s = 1 / 10 \<longrightarrow>
            current_rate (on_rate_limit_error (Some n) s) < min_rate s)
       \<and> (10 < n \<longrightarrow>
            current_rate (on_rate_limit_error (Some n) (AdaptiveRateLimiter_init r0))
              < min_rate (on_rate_limit_error (Some n) (AdaptiveRateLimiter_init r0)))
       \<and> min_rate s \<le> current_rate (on_rate_limit_error None s)"
proof -
  have g: "retry_after_given (Some n)"
    using assms by (simp add: retry_after_given_def)
  have small: "10 < n \<Longrightarrow> 1 / real_of_int n < 1 / 10"
  proof -
    assume "10 < n"
    then have "(10::real) < real_of_int n" by simp
    then show "1 / real_of_int n < 1 / 10"
      by (simp add: field_simps)
  qed
  have a: "current_rate (on_rate_limit_error (Some n) s) = 1 / real_of_int n" for s
    using g by (simp add: on_rate_limit_error_def Let_def)
  have b: "requests_per_second (base_limiter (on_rate_limit_error (Some n) s)) = 1 / real_of_int n"
    using g by (simp add: on_rate_limit_error_def Let_def update_rate_def)
  have m: "min_rate (on_rate_limit_error (Some n) (AdaptiveRateLimiter_init r0)) = 1 / 10"
    by (simp add: on_rate_limit_error_def Let_def AdaptiveRateLimiter_init_def)
  have e: "min_rate s \<le> current_rate (on_rate_limit_error None s)"
    by (simp add: on_rate_limit_error_def Let_def retry_after_given_def)
  have c: "10 < n \<and> min_rate s = 1 / 10 \<longrightarrow>
             current_rate (on_rate_limit_error (Some n) s) < min_rate s"
  proof
    assume h: "10 < n \<and> min_rate s = 1 / 10"
    then have "1 / real_of_int n < 1 / 10" using small by blast
    then show "current_rate (on_rate_limit_error (Some n) s) < min_rate s"
      using h by (simp only: a)
  qed
  have d: "10 < n \<longrightarrow>
             current_rate (on_rate_limit_error (Some n) (AdaptiveRateLimiter_init r0))
               < min_rate (on_rate_limit_error (Some n) (AdaptiveRateLimiter_init r0))"
  proof
    assume "10 < n"
    then have "1 / real_of_int n < 1 / 10" by (rule small)
    then show "current_rate (on_rate_limit_error (Some n) (AdaptiveRateLimiter_init r0))
                 < min_rate (on_rate_limit_error (Some n) (AdaptiveRateLimiter_init r0))"
      by (simp only: a m)
  qed
  from a [of s] b c d e show ?thesis by blast
qed

text \<open>
  A limiter started at 2 requests per second and told to retry after 11 seconds runs at
  1/11 requests per second, below its floor of 0.1.
\<close>

theorem on_rate_limit_error_unclamped_witness:
  "(0::int) < 11
   \<and> current_rate (on_rate_limit_error (Some 11) (AdaptiveRateLimiter_init 2)) = 1 / 11
   \<and> current_rate (on_rate_limit_error (Some 11) (AdaptiveRateLimiter_init 2))
       < min_rate (on_rate_limit_error (Some 11) (AdaptiveRateLimiter_init 2))
   \<and> min_rate (AdaptiveRateLimiter_init 2)
       \<le> current_rate (on_rate_limit_error None (AdaptiveRateLimiter_init 2))"
  using on_rate_limit_error_unclamped [of 11 "AdaptiveRateLimiter_init 2" 2]
  by (simp add: AdaptiveRateLimiter_init_def)

section \<open>Properties of the HTTP clients\<close>

lemma cratejoy_make_request_numeral:
  "cratejoy_make_request (numeral v) server k =
     (case server k of
        TransportError \<Rightarrow> (Inl RequestException, [Ev_wait, Ev_request])
      | Response status hdr content \<Rightarrow>
          if raise_for_status status then
            if status = 429 then
              (let (r, tr) = cratejoy_make_request (pred_numeral v) server (Suc k)
               in (r, [Ev_wait, Ev_request, Ev_sleep 60] @ tr))
            else (Inl (HTTPError status), [Ev_wait, Ev_request])
          else (response_json content, [Ev_wait, Ev_request]))"
  by (simp add: numeral_eq_Suc)

lemma shopify_make_request_numeral:
  "shopify_make_request (numeral v) server k =
     (case server k of
        TransportError \<Rightarrow> (Inl RequestException, [Ev_wait, Ev_request])
      | Response status hdr content \<Rightarrow>
          if status = 429 then
            (case retry_after_seconds hdr of
               Inl e \<Rightarrow> (Inl e, [Ev_wait, Ev_request])
             | Inr retry_after \<Rightarrow>
                 (let (r, tr) = shopify_make_request (pred_numeral v) server (Suc k)
                  in (r, [Ev_wait, Ev_request, Ev_sleep retry_after] @ tr)))
          else if raise_for_status status then (Inl (HTTPError status), [Ev_wait, Ev_request])
          else (response_json content, [Ev_wait, Ev_request]))"
  by (simp add: numeral_eq_Suc)

lemma cratejoy_retries:
  assumes "\<forall>i<n. status_429 (server (k + i))" and "\<not> status_429 (server (k + n))" and "n < depth"
  shows "cratejoy_make_request depth server k =
           (final_result (server (k + n)),
            concat (replicate n [Ev_wait, Ev_request, Ev_sleep 60]) @ [Ev_wait, Ev_request])"
  using assms
proof (induction n arbitrary: k depth)
  case 0
  then obtain d where d: "depth = Suc d" by (cases depth) auto
  show ?case using 0(2) unfolding d
    by (cases "server k") (auto simp: raise_for_status_def)
next
  case (Suc n)
  then obtain d where d: "depth = Suc d" by (cases depth) auto
  have h0: "status_429 (server k)"
    using Suc.prems(1) by (metis add.right_neutral zero_less_Suc)
  have ih: "cratejoy_make_request d server (Suc k) =
           (final_result (server (Suc k + n)),
            concat (replicate n [Ev_wait, Ev_request, Ev_sleep 60]) @ [Ev_wait, Ev_request])"
  proof (rule Suc.IH)
    show "\<forall>i<n. status_429 (server (Suc k + i))"
      using Suc.prems(1) by (metis Suc_less_eq add_Suc_shift)
    show "\<not> status_429 (server (Suc k + n))" using Suc.prems(2) by simp
    show "n < d" using Suc.prems(3) d by simp
  qed
  show ?case unfolding d using h0 ih
    by (cases "server k") (auto simp: raise_for_status_def)
qed

lemma concat_map_upt_Suc:
  "concat (map g [0..<Suc m]) = g 0 @ concat (map (\<lambda>i. g (Suc i)) [0..<m])"
proof -
  have "[0..<Suc m] = 0 # map Suc [0..<m]"
    by (simp add: upt_conv_Cons map_Suc_upt del: upt_Suc)
  then show ?thesis by (simp add: comp_def del: upt_Suc)
qed

lemma shopify_retries_trace:
  assumes "\<forall>i<m. rate_limited (server (k + i))" and "\<not> rate_limited (server (k + m))"
    and "m < depth"
  shows "shopify_make_request depth server k =
           ((if status_429 (server (k + m)) then Inl ValueError else final_result (server (k + m))),
            concat (map (\<lambda>i. [Ev_wait, Ev_request, Ev_sleep (retry_after_of (server (k + i)))]) [0..<m])
              @ [Ev_wait, Ev_request])"
  using assms
proof (induction m arbitrary: k depth)
  case 0
  then obtain d where d: "depth = Suc d" by (cases depth) auto
  show ?case using 0(2) unfolding d
    by (cases "server k") (auto simp: retry_after_seconds_def split: sum.splits retry_header.splits if_splits)
next
  case (Suc m)
  then obtain d where d: "depth = Suc d" by (cases depth) auto
  have h0: "rate_limited (server k)"
    using Suc.prems(1) by (metis add.right_neutral zero_less_Suc)
  have ih: "shopify_make_request d server (Suc k) =
           ((if status_429 (server (Suc k + m)) then Inl ValueError else final_result (server (Suc k + m))),
            concat (map (\<lambda>i. [Ev_wait, Ev_request, Ev_sleep (retry_after_of (server (Suc k + i)))]) [0..<m])
              @ [Ev_wait, Ev_request])"
  proof (rule Suc.IH)
    show "\<forall>i<m. rate_limited (server (Suc k + i))"
      using Suc.prems(1) by (metis Suc_less_eq add_Suc_shift)
    show "\<not> rate_limited (server (Suc k + m))" using Suc.prems(2) by simp
    show "m < d" using Suc.prems(3) d by simp
  qed
  obtain hdr content where r: "server k = Response 429 hdr content"
    using h0 by (cases "server k") auto
  obtain secs where s: "retry_after_seconds hdr = Inr secs"
    using h0 r by (cases "retry_after_seconds hdr") auto
  have ra: "retry_after_of (Response 429 hdr content :: 'a http_outcome) = secs"
    by (simp add: retry_after_of_def s)
  show ?case unfolding d
    by (simp only: concat_map_upt_Suc) (simp add: r s ih ra del: upt_Suc)
qed

lemma cratejoy_exhausts:
  "\<forall>i<depth. status_429 (server (k + i)) \<Longrightarrow>
   fst (cratejoy_make_request depth server k) = Inl RecursionError
   \<and> requests_sent (snd (cratejoy_make_request depth server k)) = depth"
proof (induction depth arbitrary: k)
  case 0
  then show ?case by (simp add: requests_sent_def)
next
  case (Suc d)
  have h0: "status_429 (server k)"
    using Suc.prems by (metis add.right_neutral zero_less_Suc)
  have "\<forall>i<d. status_429 (server (Suc k + i))"
    using Suc.prems by (metis Suc_less_eq add_Suc_shift)
  then have ih: "fst (cratejoy_make_request d server (Suc k)) = Inl RecursionError
   \<and> requests_sent (snd (cratejoy_make_request d server (Suc k))) = d"
    by (rule Suc.IH)
  show ?case using h0 ih
    by (cases "server k") (auto simp: raise_for_status_def requests_sent_def split: prod.splits)
qed

lemma shopify_exhausts:
  "\<forall>i<depth. rate_limited (server (k + i)) \<Longrightarrow>
   fst (shopify_make_request depth server k) = Inl RecursionError
   \<and> requests_sent (snd (shopify_make_request depth server k)) = depth"
proof (induction depth arbitrary: k)
  case 0
  then show ?case by (simp add: requests_sent_def)
next
  case (Suc d)
  have h0: "rate_limited (server k)"
    using Suc.prems by (metis add.right_neutral zero_less_Suc)
  have "\<forall>i<d. rate_limited (server (Suc k + i))"
    using Suc.prems by (metis Suc_less_eq add_Suc_shift)
  then have ih: "fst (shopify_make_request d server (Suc k)) = Inl RecursionError
   \<and> requests_sent (snd (shopify_make_request d server (Suc k))) = d"
    by (rule Suc.IH)
  show ?case using h0 ih
    by (cases "server k") (auto simp: requests_sent_def split: prod.splits sum.splits)
qed

lemma requests_sent_shopify_trace:
  "requests_sent (concat (map (\<lambda>i. [Ev_wait, Ev_request, Ev_sleep (f i)]) xs) @ [Ev_wait, Ev_request])
     = Suc (length xs)"
  by (induction xs) (simp_all add: requests_sent_def)

lemma sleeps_taken_shopify_trace:
  "sleeps_taken (concat (map (\<lambda>i. [Ev_wait, Ev_request, Ev_sleep (f i)]) xs) @ [Ev_wait, Ev_request])
     = length xs"
  by (induction xs) (simp_all add: sleeps_taken_def)

lemma requests_sent_cratejoy_trace:
  "requests_sent (concat (replicate n [Ev_wait, Ev_request, Ev_sleep 60]) @ [Ev_wait, Ev_request]) = Suc n"
  by (induction n) (simp_all add: requests_sent_def)

lemma sleeps_taken_cratejoy_trace:
  "sleeps_taken (concat (replicate n [Ev_wait, Ev_request, Ev_sleep 60]) @ [Ev_wait, Ev_request]) = n"
  by (induction n) (simp_all add: sleeps_taken_def)

lemma mixed_facts:
  "status_429 (mixed_headers_server 0)" "status_429 (mixed_headers_server 1)"
  "status_429 (mixed_headers_server 2)" "\<not> status_429 (mixed_headers_server 3)"
  "rate_limited (mixed_headers_server 0)" "rate_limited (mixed_headers_server 1)"
  "\<not> rate_limited (mixed_headers_server 2)"
  "retry_after_of (mixed_headers_server 0) = 5" "retry_after_of (mixed_headers_server 1) = 2"
  "final_result (mixed_headers_server 3) = Inr (Some 7)"
  by (simp_all add: mixed_headers_server_def retry_after_seconds_def retry_after_of_def
      raise_for_status_def response_json_def)

text \<open>
  C4 (as the code has it). A 429 answer makes the Cratejoy client sleep 60 seconds and call
  \<^verbatim>\<open>_make_request\<close> again. It makes the Shopify client sleep the seconds of the
  \<^verbatim>\<open>Retry-After\<close> header (2 when the header is absent) and call \<^verbatim>\<open>_make_request\<close> again,
  unless the header is not an integer or is negative: then the client raises
  \<open>ValueError\<close> without sleeping or retrying. The repeated call treats a further 429 the
  same way. So a request whose first \<open>n\<close> answers are 429 answers that the client retries,
  and whose next answer is not, is sent \<open>n + 1\<close> times with \<open>n\<close> sleeps of the durations
  above, and the caller gets the outcome of the last attempt; there is no limit of one
  retry, only the interpreter's recursion depth bounds them.
\<close>

theorem make_request_retries_every_429:
  assumes "\<forall>i<n. status_429 (server (k + i))"
    and "\<not> status_429 (server (k + n))"
    and "n < depth"
    and "\<forall>i<m. rate_limited (server (k + i))"
    and "\<not> rate_limited (server (k + m))"
    and "m < depth"
  shows "cratejoy_make_request depth server k =
           (final_result (server (k + n)),
            concat (replicate n [Ev_wait, Ev_request, Ev_sleep 60]) @ [Ev_wait, Ev_request])
       \<and> requests_sent (snd (cratejoy_make_request depth server k)) = Suc n
       \<and> sleeps_taken (snd (cratejoy_make_request depth server k)) = n
       \<and> shopify_make_request depth server k =
           ((if status_429 (server (k + m)) then Inl ValueError else final_result (server (k + m))),
            concat (map (\<lambda>i. [Ev_wait, Ev_request, Ev_sleep (retry_after_of (server (k + i)))]) [0..<m])
              @ [Ev_wait, Ev_request])
       \<and> requests_sent (snd (shopify_make_request depth server k)) = Suc m
       \<and> sleeps_taken (snd (shopify_make_request depth server k)) = m"
proof -
  have c: "cratejoy_make_request depth server k =
           (final_result (server (k + n)),
            concat (replicate n [Ev_wait, Ev_request, Ev_sleep 60]) @ [Ev_wait, Ev_request])"
    using assms(1-3) by (rule cratejoy_retries)
  have s: "shopify_make_request depth server k =
           ((if status_429 (server (k + m)) then Inl ValueError else final_result (server (k + m))),
            concat (map (\<lambda>i. [Ev_wait, Ev_request, Ev_sleep (retry_after_of (server (k + i)))]) [0..<m])
              @ [Ev_wait, Ev_request])"
    using assms(4-6) by (rule shopify_retries_trace)
  show ?thesis
    by (simp add: c s requests_sent_cratejoy_trace sleeps_taken_cratejoy_trace
        requests_sent_shopify_trace sleeps_taken_shopify_trace del: upt_Suc)
qed

text \<open>
  The server with mixed headers: the Cratejoy client sends four requests, sleeping 60
  seconds three times, and returns the body; the Shopify client sleeps 5 and then 2
  seconds and raises on the third answer.
\<close>

theorem make_request_retries_every_429_witness:
  "status_429 (mixed_headers_server 0) \<and> status_429 (mixed_headers_server 1)
   \<and> status_429 (mixed_headers_server 2) \<and> \<not> status_429 (mixed_headers_server 3)
   \<and> rate_limited (mixed_headers_server 0) \<and> rate_limited (mixed_headers_server 1)
   \<and> \<not> rate_limited (mixed_headers_server 2)
   \<and> cratejoy_make_request 1000 mixed_headers_server 0 =
        (Inr (Some 7),
         [Ev_wait, Ev_request, Ev_sleep 60, Ev_wait, Ev_request, Ev_sleep 60,
          Ev_wait, Ev_request, Ev_sleep 60, Ev_wait, Ev_request])
   \<and> shopify_make_request 1000 mixed_headers_server 0 =
        (Inl ValueError,
         [Ev_wait, Ev_request, Ev_sleep 5, Ev_wait, Ev_request, Ev_sleep 2,
          Ev_wait, Ev_request])"
proof -
  have h1: "\<forall>i<3. status_429 (mixed_headers_server (0 + i))"
    by (simp add: mixed_headers_server_def)
  have h2: "\<not> status_429 (mixed_headers_server (0 + 3))"
    by (simp add: mixed_headers_server_def)
  have h4: "\<forall>i<2. rate_limited (mixed_headers_server (0 + i))"
    by (simp add: mixed_headers_server_def retry_after_seconds_def)
  have h5: "\<not> rate_limited (mixed_headers_server (0 + 2))"
    by (simp add: mixed_headers_server_def retry_after_seconds_def)
  have r: "concat (replicate 3 [Ev_wait, Ev_request, Ev_sleep 60]) =
        [Ev_wait, Ev_request, Ev_sleep 60, Ev_wait, Ev_request, Ev_sleep 60,
          Ev_wait, Ev_request, Ev_sleep 60]"
    by (simp add: numeral_3_eq_3)
  have u: "[0..<2] = [0, 1]" by (simp add: numeral_2_eq_2)
  have s2: "status_429 (mixed_headers_server (Suc (Suc 0)))"
    by (simp add: mixed_headers_server_def)
  show ?thesis
    using make_request_retries_every_429 [OF h1 h2 _ h4 h5, of 1000] mixed_facts s2
    by (simp add: r u)
qed

text \<open>
  C4 as stated (at most one retry per request) fails: answered by 429 twice and then by
  200, both clients send the request three times, sleep twice and return the body; the
  second 429 is not surfaced to the caller.
\<close>

theorem make_request_single_retry_counterexample:
  "cratejoy_make_request 1000 (busy_then_ok 2 (7::nat)) 0 =
        (Inr (Some 7),
         [Ev_wait, Ev_request, Ev_sleep 60, Ev_wait, Ev_request, Ev_sleep 60,
          Ev_wait, Ev_request])
   \<and> shopify_make_request 1000 (busy_then_ok 2 (7::nat)) 0 =
        (Inr (Some 7),
         [Ev_wait, Ev_request, Ev_sleep 2, Ev_wait, Ev_request, Ev_sleep 2,
          Ev_wait, Ev_request])
   \<and> requests_sent (snd (cratejoy_make_request 1000 (busy_then_ok 2 (7::nat)) 0)) = 3
   \<and> requests_sent (snd (shopify_make_request 1000 (busy_then_ok 2 (7::nat)) 0)) = 3"
  by (simp add: cratejoy_make_request_numeral shopify_make_request_numeral busy_then_ok_def
      retry_after_seconds_def raise_for_status_def response_json_def requests_sent_def)

section \<open>Properties of the staging store\<close>

lemma upsert_customer_alt:
  "upsert_customer cid em data t tbl =
     (if cid \<in> set (map cratejoy_id tbl)
      then map (\<lambda>r. if cratejoy_id r = cid
                      then \<lparr>cratejoy_id = cid, email = em, raw_data = data, fetched_at = t\<rparr>
                      else r) tbl
      else tbl @ [\<lparr>cratejoy_id = cid, email = em, raw_data = data, fetched_at = t\<rparr>])"
proof -
  have "(if cratejoy_id r = cid then r\<lparr>raw_data := data, email := em, fetched_at := t\<rparr> else r) =
        (if cratejoy_id r = cid
         then \<lparr>cratejoy_id = cid, email = em, raw_data = data, fetched_at = t\<rparr> else r)"
    for r :: "'a customer_row"
    by (cases r) simp
  then show ?thesis by (simp add: upsert_customer_def)
qed

lemma upsert_order_alt:
  "upsert_order oid cid data t tbl =
     (if oid \<in> set (map order_cratejoy_id tbl)
      then map (\<lambda>r. if order_cratejoy_id r = oid
                      then \<lparr>order_cratejoy_id = oid, cratejoy_customer_id = cid,
                            order_raw_data = data, order_fetched_at = t\<rparr>
                      else r) tbl
      else tbl @ [\<lparr>order_cratejoy_id = oid, cratejoy_customer_id = cid,
                    order_raw_data = data, order_fetched_at = t\<rparr>])"
proof -
  have "(if order_cratejoy_id r = oid
         then r\<lparr>order_raw_data := data, cratejoy_customer_id := cid, order_fetched_at := t\<rparr>
         else r) =
        (if order_cratejoy_id r = oid
         then \<lparr>order_cratejoy_id = oid, cratejoy_customer_id = cid,
               order_raw_data = data, order_fetched_at = t\<rparr> else r)"
    for r :: "'a order_row"
    by (cases r) simp
  then show ?thesis by (simp add: upsert_order_def)
qed

text \<open>Replacing the rows of one key in a table, for any key function.\<close>

lemma keys_replace:
  "key R = k \<Longrightarrow> map key (map (\<lambda>r. if key r = k then R else r) tbl) = map key tbl"
  by (induction tbl) auto

lemma filter_replace_absent:
  "k \<notin> set (map key tbl) \<Longrightarrow> filter (\<lambda>r. key r = k) tbl = []"
  by (induction tbl) auto

lemma filter_replace_present:
  assumes "distinct (map key tbl)" and "k \<in> set (map key tbl)" and "key R = k"
  shows "filter (\<lambda>r. key r = k) (map (\<lambda>r. if key r = k then R else r) tbl) = [R]"
  using assms
proof (induction tbl)
  case Nil
  then show ?case by simp
next
  case (Cons r tbl)
  show ?case
  proof (cases "key r = k")
    case True
    then have "k \<notin> set (map key tbl)" using Cons.prems(1) by auto
    moreover have "map key (map (\<lambda>r. if key r = k then R else r) tbl) = map key tbl"
      using Cons.prems(3) by (rule keys_replace)
    ultimately have "k \<notin> set (map key (map (\<lambda>r. if key r = k then R else r) tbl))"
      by metis
    then have "filter (\<lambda>r. key r = k) (map (\<lambda>r. if key r = k then R else r) tbl) = []"
      by (rule filter_replace_absent)
    then show ?thesis using True Cons.prems(3) by simp
  next
    case False
    then have "k \<in> set (map key tbl)" using Cons.prems(2) by auto
    then show ?thesis using False Cons.prems(1,3) Cons.IH by simp
  qed
qed

lemma filter_others_replace:
  "filter (\<lambda>r. key r \<noteq> k) (map (\<lambda>r. if key r = k then R else r) tbl)
     = filter (\<lambda>r. key r \<noteq> k) tbl" if "key R = k"
  using that by (induction tbl) auto

lemma upsert_customer_key_list:
  "map cratejoy_id (upsert_customer cid em data t tbl) =
     (if cid \<in> set (map cratejoy_id tbl) then map cratejoy_id tbl else map cratejoy_id tbl @ [cid])"
proof (cases "cid \<in> set (map cratejoy_id tbl)")
  case True
  have "map cratejoy_id (map (\<lambda>r. if cratejoy_id r = cid
          then \<lparr>cratejoy_id = cid, email = em, raw_data = data, fetched_at = t\<rparr> else r) tbl)
        = map cratejoy_id tbl"
    by (rule keys_replace) simp
  then show ?thesis using True by (simp only: upsert_customer_alt if_True)
next
  case False
  then show ?thesis by (simp add: upsert_customer_alt)
qed

lemma upsert_customer_keys:
  "set (map cratejoy_id (upsert_customer cid em data t tbl)) = insert cid (set (map cratejoy_id tbl))"
  by (auto simp: upsert_customer_key_list)

lemma upsert_customer_unique:
  "unique_cratejoy_id tbl \<Longrightarrow> unique_cratejoy_id (upsert_customer cid em data t tbl)"
  unfolding unique_cratejoy_id_def upsert_customer_key_list by simp

lemma upsert_customer_row:
  assumes "unique_cratejoy_id tbl"
  shows "filter (\<lambda>r. cratejoy_id r = cid) (upsert_customer cid em data t tbl)
           = [\<lparr>cratejoy_id = cid, email = em, raw_data = data, fetched_at = t\<rparr>]"
proof (cases "cid \<in> set (map cratejoy_id tbl)")
  case True
  then show ?thesis
    using assms filter_replace_present [where key = cratejoy_id and k = cid and tbl = tbl]
    by (simp add: upsert_customer_alt unique_cratejoy_id_def)
next
  case False
  then show ?thesis
    using filter_replace_absent [where key = cratejoy_id and k = cid and tbl = tbl]
    by (simp add: upsert_customer_alt)
qed

lemma upsert_customer_others:
  "filter (\<lambda>r. cratejoy_id r \<noteq> cid) (upsert_customer cid em data t tbl)
     = filter (\<lambda>r. cratejoy_id r \<noteq> cid) tbl"
  using filter_others_replace [where key = cratejoy_id and k = cid and tbl = tbl]
  by (simp add: upsert_customer_alt)

lemma upsert_customer_length_again:
  "cid \<in> set (map cratejoy_id tbl) \<Longrightarrow> length (upsert_customer cid em data t tbl) = length tbl"
  by (simp add: upsert_customer_alt)

lemma upsert_order_key_list:
  "map order_cratejoy_id (upsert_order oid cid data t tbl) =
     (if oid \<in> set (map order_cratejoy_id tbl) then map order_cratejoy_id tbl
      else map order_cratejoy_id tbl @ [oid])"
proof (cases "oid \<in> set (map order_cratejoy_id tbl)")
  case True
  have "map order_cratejoy_id (map (\<lambda>r. if order_cratejoy_id r = oid
          then \<lparr>order_cratejoy_id = oid, cratejoy_customer_id = cid,
                order_raw_data = data, order_fetched_at = t\<rparr> else r) tbl)
        = map order_cratejoy_id tbl"
    by (rule keys_replace) simp
  then show ?thesis using True by (simp only: upsert_order_alt if_True)
next
  case False
  then show ?thesis by (simp add: upsert_order_alt)
qed

lemma upsert_order_keys:
  "set (map order_cratejoy_id (upsert_order oid cid data t tbl))
     = insert oid (set (map order_cratejoy_id tbl))"
  by (auto simp: upsert_order_key_list)

lemma upsert_order_unique:
  "unique_order_id tbl \<Longrightarrow> unique_order_id (upsert_order oid cid data t tbl)"
  unfolding unique_order_id_def upsert_order_key_list by simp

lemma upsert_order_row:
  assumes "unique_order_id tbl"
  shows "filter (\<lambda>r. order_cratejoy_id r = oid) (upsert_order oid cid data t tbl)
           = [\<lparr>order_cratejoy_id = oid, cratejoy_customer_id = cid,
                order_raw_data = data, order_fetched_at = t\<rparr>]"
proof (cases "oid \<in> set (map order_cratejoy_id tbl)")
  case True
  then show ?thesis
    using assms filter_replace_present [where key = order_cratejoy_id and k = oid and tbl = tbl]
    by (simp add: upsert_order_alt unique_order_id_def)
next
  case False
  then show ?thesis
    using filter_replace_absent [where key = order_cratejoy_id and k = oid and tbl = tbl]
    by (simp add: upsert_order_alt)
qed

lemma upsert_order_length_again:
  "oid \<in> set (map order_cratejoy_id tbl) \<Longrightarrow> length (upsert_order oid cid data t tbl) = length tbl"
  by (simp add: upsert_order_alt)

lemma process_customer_batch_single:
  assumes "\<not> falsy_id (c_id c)" and "\<not> execute_raises ora c" and "\<not> commit_raises ora"
  shows "process_customer_batch ora [c] tbl =
           (Inr (1, 0), upsert_customer (the (c_id c)) (email_or_empty c) c (now ora) tbl)"
  using assms by (simp add: process_customer_batch_def)

text \<open>
  C5. Under the unique constraint on the natural id, upserting the same id twice leaves
  exactly one row for that id, carrying the payload, the e-mail (the owner, for an order)
  and the \<open>fetched_at\<close> of the later upsert; the second upsert adds no row, keeps the
  constraint and leaves the rows of other ids as they were. The same holds through
  \<^verbatim>\<open>_process_customer_batch\<close> for two passes over a record whose id is truthy.
\<close>

theorem upsert_twice_single_row:
  assumes "unique_cratejoy_id tbl" and "unique_order_id otbl"
  shows "filter (\<lambda>r. cratejoy_id r = cid)
             (upsert_customer cid e2 p2 t2 (upsert_customer cid e1 p1 t1 tbl))
           = [\<lparr>cratejoy_id = cid, email = e2, raw_data = p2, fetched_at = t2\<rparr>]
       \<and> length (upsert_customer cid e2 p2 t2 (upsert_customer cid e1 p1 t1 tbl))
           = length (upsert_customer cid e1 p1 t1 tbl)
       \<and> unique_cratejoy_id (upsert_customer cid e2 p2 t2 (upsert_customer cid e1 p1 t1 tbl))
       \<and> filter (\<lambda>r. cratejoy_id r \<noteq> cid)
             (upsert_customer cid e2 p2 t2 (upsert_customer cid e1 p1 t1 tbl))
           = filter (\<lambda>r. cratejoy_id r \<noteq> cid) tbl
       \<and> filter (\<lambda>r. order_cratejoy_id r = oid)
             (upsert_order oid c2 q2 t2 (upsert_order oid c1 q1 t1 otbl))
           = [\<lparr>order_cratejoy_id = oid, cratejoy_customer_id = c2,
                order_raw_data = q2, order_fetched_at = t2\<rparr>]
       \<and> length (upsert_order oid c2 q2 t2 (upsert_order oid c1 q1 t1 otbl))
           = length (upsert_order oid c1 q1 t1 otbl)
       \<and> unique_order_id (upsert_order oid c2 q2 t2 (upsert_order oid c1 q1 t1 otbl))
       \<and> (\<not> falsy_id (c_id r1) \<and> c_id r2 = c_id r1
            \<and> \<not> execute_raises ora1 r1 \<and> \<not> commit_raises ora1
            \<and> \<not> execute_raises ora2 r2 \<and> \<not> commit_raises ora2 \<longrightarrow>
          filter (\<lambda>r. cratejoy_id r = the (c_id r1))
             (snd (process_customer_batch ora2 [r2] (snd (process_customer_batch ora1 [r1] tbl))))
           = [\<lparr>cratejoy_id = the (c_id r1), email = email_or_empty r2, raw_data = r2,
                fetched_at = now ora2\<rparr>])"
proof -
  let ?t1 = "upsert_customer cid e1 p1 t1 tbl"
  let ?o1 = "upsert_order oid c1 q1 t1 otbl"
  have u1: "unique_cratejoy_id ?t1" using assms(1) by (rule upsert_customer_unique)
  have v1: "unique_order_id ?o1" using assms(2) by (rule upsert_order_unique)
  have a: "filter (\<lambda>r. cratejoy_id r = cid) (upsert_customer cid e2 p2 t2 ?t1)
             = [\<lparr>cratejoy_id = cid, email = e2, raw_data = p2, fetched_at = t2\<rparr>]"
    using u1 by (rule upsert_customer_row)
  have "cid \<in> set (map cratejoy_id ?t1)" by (simp only: upsert_customer_keys insertI1)
  then have b: "length (upsert_customer cid e2 p2 t2 ?t1) = length ?t1"
    by (rule upsert_customer_length_again)
  have c: "unique_cratejoy_id (upsert_customer cid e2 p2 t2 ?t1)"
    using u1 by (rule upsert_customer_unique)
  have d: "filter (\<lambda>r. cratejoy_id r \<noteq> cid) (upsert_customer cid e2 p2 t2 ?t1)
             = filter (\<lambda>r. cratejoy_id r \<noteq> cid) tbl"
    by (simp only: upsert_customer_others)
  have e: "filter (\<lambda>r. order_cratejoy_id r = oid) (upsert_order oid c2 q2 t2 ?o1)
             = [\<lparr>order_cratejoy_id = oid, cratejoy_customer_id = c2,
                  order_raw_data = q2, order_fetched_at = t2\<rparr>]"
    using v1 by (rule upsert_order_row)
  have "oid \<in> set (map order_cratejoy_id ?o1)" by (simp only: upsert_order_keys insertI1)
  then have f: "length (upsert_order oid c2 q2 t2 ?o1) = length ?o1"
    by (rule upsert_order_length_again)
  have g: "unique_order_id (upsert_order oid c2 q2 t2 ?o1)"
    using v1 by (rule upsert_order_unique)
  have h: "filter (\<lambda>r. cratejoy_id r = the (c_id r1))
             (snd (process_customer_batch ora2 [r2] (snd (process_customer_batch ora1 [r1] tbl))))
           = [\<lparr>cratejoy_id = the (c_id r1), email = email_or_empty r2, raw_data = r2,
                fetched_at = now ora2\<rparr>]"
    if p: "\<not> falsy_id (c_id r1) \<and> c_id r2 = c_id r1
            \<and> \<not> execute_raises ora1 r1 \<and> \<not> commit_raises ora1
            \<and> \<not> execute_raises ora2 r2 \<and> \<not> commit_raises ora2"
  proof -
    let ?k = "the (c_id r1)"
    let ?s1 = "upsert_customer ?k (email_or_empty r1) r1 (now ora1) tbl"
    have s1: "snd (process_customer_batch ora1 [r1] tbl) = ?s1"
      using p by (simp add: process_customer_batch_single)
    have s2: "snd (process_customer_batch ora2 [r2] ?s1)
                = upsert_customer ?k (email_or_empty r2) r2 (now ora2) ?s1"
      using p by (simp add: process_customer_batch_single)
    have "unique_cratejoy_id ?s1" using assms(1) by (rule upsert_customer_unique)
    then have "filter (\<lambda>r. cratejoy_id r = ?k)
                 (upsert_customer ?k (email_or_empty r2) r2 (now ora2) ?s1)
               = [\<lparr>cratejoy_id = ?k, email = email_or_empty r2, raw_data = r2,
                    fetched_at = now ora2\<rparr>]"
      by (rule upsert_customer_row)
    then show ?thesis by (simp only: s1 s2)
  qed
  from a b c d e f g h show ?thesis by blast
qed

text \<open>
  A table with the ids 5 and 6: two upserts of id 5 leave the two rows, the row of id 5
  carrying the second e-mail and timestamp.
\<close>

theorem upsert_twice_single_row_witness:
  "unique_cratejoy_id
     [\<lparr>cratejoy_id = 5, email = ''old'', raw_data = customer_with_id 5, fetched_at = 1\<rparr>,
      \<lparr>cratejoy_id = 6, email = ''six'', raw_data = customer_with_id 6, fetched_at = 1\<rparr>]
   \<and> unique_order_id ([] :: unit order_row list)
   \<and> filter (\<lambda>r. cratejoy_id r = 5)
       (upsert_customer 5 ''second'' (customer_with_id 5) 3
         (upsert_customer 5 ''first'' (customer_with_id 5) 2
           [\<lparr>cratejoy_id = 5, email = ''old'', raw_data = customer_with_id 5, fetched_at = 1\<rparr>,
            \<lparr>cratejoy_id = 6, email = ''six'', raw_data = customer_with_id 6, fetched_at = 1\<rparr>]))
       = [\<lparr>cratejoy_id = 5, email = ''second'', raw_data = customer_with_id 5, fetched_at = 3\<rparr>]
   \<and> upsert_customer 5 ''second'' (customer_with_id 5) 3
         (upsert_customer 5 ''first'' (customer_with_id 5) 2
           [\<lparr>cratejoy_id = 5, email = ''old'', raw_data = customer_with_id 5, fetched_at = 1\<rparr>,
            \<lparr>cratejoy_id = 6, email = ''six'', raw_data = customer_with_id 6, fetched_at = 1\<rparr>])
       = [\<lparr>cratejoy_id = 5, email = ''second'', raw_data = customer_with_id 5, fetched_at = 3\<rparr>,
          \<lparr>cratejoy_id = 6, email = ''six'', raw_data = customer_with_id 6, fetched_at = 1\<rparr>]
   \<and> \<not> falsy_id (c_id (customer_with_id 5))
   \<and> \<not> execute_raises (healthy_session 2) (customer_with_id 5)
   \<and> \<not> commit_raises (healthy_session 2)
   \<and> filter (\<lambda>r. cratejoy_id r = 5)
        (snd (process_customer_batch (healthy_session 3) [customer_with_id 5]
           (snd (process_customer_batch (healthy_session 2) [customer_with_id 5]
             [\<lparr>cratejoy_id = 5, email = ''old'', raw_data = customer_with_id 5, fetched_at = 1\<rparr>,
              \<lparr>cratejoy_id = 6, email = ''six'', raw_data = customer_with_id 6, fetched_at = 1\<rparr>]))))
       = [\<lparr>cratejoy_id = 5, email = ''a@b.c'', raw_data = customer_with_id 5, fetched_at = 3\<rparr>]"
proof -
  have u: "unique_cratejoy_id
     [\<lparr>cratejoy_id = 5, email = ''old'', raw_data = customer_with_id 5, fetched_at = 1\<rparr>,
      \<lparr>cratejoy_id = 6, email = ''six'', raw_data = customer_with_id 6, fetched_at = 1\<rparr>]"
    by (simp add: unique_cratejoy_id_def)
  have v: "unique_order_id ([] :: unit order_row list)"
    by (simp add: unique_order_id_def)
  have w: "\<not> falsy_id (c_id (customer_with_id 5))"
    "\<not> execute_raises (healthy_session 2) (customer_with_id 5)"
    "\<not> commit_raises (healthy_session 2)"
    "\<not> execute_raises (healthy_session 3) (customer_with_id 5)"
    "\<not> commit_raises (healthy_session 3)"
    "the (c_id (customer_with_id 5)) = 5"
    "email_or_empty (customer_with_id 5) = ''a@b.c''"
    "now (healthy_session 3) = 3"
    by (simp_all add: falsy_id_def customer_with_id_def healthy_session_def email_or_empty_def)
  have x: "upsert_customer 5 ''second'' (customer_with_id 5) 3
         (upsert_customer 5 ''first'' (customer_with_id 5) 2
           [\<lparr>cratejoy_id = 5, email = ''old'', raw_data = customer_with_id 5, fetched_at = 1\<rparr>,
            \<lparr>cratejoy_id = 6, email = ''six'', raw_data = customer_with_id 6, fetched_at = 1\<rparr>])
       = [\<lparr>cratejoy_id = 5, email = ''second'', raw_data = customer_with_id 5, fetched_at = 3\<rparr>,
          \<lparr>cratejoy_id = 6, email = ''six'', raw_data = customer_with_id 6, fetched_at = 1\<rparr>]"
    by (simp add: upsert_customer_def)
  show ?thesis
    using upsert_twice_single_row [OF u v, of 5 "''second''" "customer_with_id 5" 3
        "''first''" "customer_with_id 5" 2 0 None "\<lparr>o_id = None, o_customer_id = None, o_rest = ()\<rparr>"
        None "\<lparr>o_id = None, o_customer_id = None, o_rest = ()\<rparr>"
        "customer_with_id 5" "customer_with_id 5" "healthy_session 2" "healthy_session 3"]
      u v w x
    by simp
qed

section \<open>Properties of the collection loop\<close>

lemma collect_loop_numeral:
  "collect_loop (numeral v) env batch_size start_page n st =
     (case collect_step env batch_size start_page n st of
        Raised e \<Rightarrow> Some (Inl e)
      | Finished st' \<Rightarrow> Some (Inr (summary_of st', st'))
      | Continue st' \<Rightarrow> collect_loop (pred_numeral v) env batch_size start_page (Suc n) st')"
  by (simp add: numeral_eq_Suc)

lemma page_failed_not_Raised: "page_failed batch_size start_page st \<noteq> Raised e"
  by (simp add: page_failed_def Let_def)

lemma collect_step_Raised:
  assumes "collect_step env batch_size start_page n st = Raised e"
  shows "stop_callback env n = Inl e \<or> progress_callback env n = Some e"
proof (cases "stop_callback env n")
  case (Inl e0)
  then show ?thesis using assms by (simp add: collect_step_def split: if_splits)
next
  case (Inr stop)
  show ?thesis
  proof (cases "progress_callback env n")
    case (Some e0)
    then show ?thesis
      using assms Inr by (cases stop) (simp_all add: collect_step_def split: if_splits)
  next
    case None
    have "collect_step env batch_size start_page n st \<noteq> Raised e"
      using Inr None
      by (cases stop)
         (simp_all add: collect_step_def Let_def page_failed_not_Raised
            split: sum.splits prod.splits)
    then show ?thesis using assms by simp
  qed
qed

lemma collect_loop_raises_only_from_callbacks:
  "collect_loop fuel env batch_size start_page n st = Some (Inl e) \<Longrightarrow>
   \<exists>k. stop_callback env k = Inl e \<or> progress_callback env k = Some e"
proof (induction fuel arbitrary: n st)
  case 0
  then show ?case by simp
next
  case (Suc fuel)
  show ?case
  proof (cases "collect_step env batch_size start_page n st")
    case (Continue st')
    then have "collect_loop fuel env batch_size start_page (Suc n) st' = Some (Inl e)"
      using Suc.prems by simp
    then show ?thesis by (rule Suc.IH)
  next
    case (Finished st')
    then show ?thesis using Suc.prems by simp
  next
    case (Raised e')
    then have "e' = e" using Suc.prems by simp
    then show ?thesis using Raised collect_step_Raised by blast
  qed
qed

lemma process_customer_batch_commit_raises:
  "commit_raises ora \<Longrightarrow> process_customer_batch ora customers tbl = (Inl DatabaseError, tbl)"
  by (simp add: process_customer_batch_def split: prod.splits)

text \<open>
  C3 (as the code has it). When the commit of a page's batch raises, the batch is rolled
  back (the table is the one before the page) and the exception leaves
  \<^verbatim>\<open>_process_customer_batch\<close>; the collection loop catches it in its page handler: nothing
  is added to the collected count, the page number is incremented, and the iteration ends
  without raising, the run either going on with that page or returning its normal summary.
  The commit failure does not reach the caller of the run: a run raises only what its stop
  callback or its progress callback raises.
\<close>

theorem commit_failure_caught_by_page_handler:
  assumes "is_running env n"
    and "stop_callback env n = Inr False"
    and "progress_callback env n = None"
    and "get_customers env n (current_page st) = Inr response"
    and "results response \<noteq> []"
    and "commit_raises (session env n)"
  shows "process_customer_batch (session env n) (results response) (db st)
           = (Inl DatabaseError, db st)
       \<and> (\<exists>st'. (collect_step env batch_size start_page n st = Continue st'
                  \<or> collect_step env batch_size start_page n st = Finished st')
               \<and> current_page st' = current_page st + 1
               \<and> collected st' = collected st
               \<and> db st' = db st
               \<and> pages_fetched st' = pages_fetched st @ [current_page st])
       \<and> (collect_loop fuel env batch_size start_page n st = Some (Inl e') \<longrightarrow>
            (\<exists>k. stop_callback env k = Inl e' \<or> progress_callback env k = Some e'))"
proof -
  let ?st' = "st\<lparr>pages_fetched := pages_fetched st @ [current_page st],
                 failed := failed st + batch_size,
                 current_page := current_page st + 1\<rparr>"
  have a: "process_customer_batch (session env n) (results response) (db st)
             = (Inl DatabaseError, db st)"
    using assms(6) by (rule process_customer_batch_commit_raises)
  have step: "collect_step env batch_size start_page n st =
           (if current_page st + 1 - start_page > 10 then Finished ?st' else Continue ?st')"
    using assms(1-5) by (simp add: collect_step_def a page_failed_def Let_def)
  have d: "collect_step env batch_size start_page n st = Continue ?st'
             \<or> collect_step env batch_size start_page n st = Finished ?st'"
  proof (cases "current_page st + 1 - start_page > 10")
    case True
    then have "collect_step env batch_size start_page n st = Finished ?st'"
      by (simp only: step if_True)
    then show ?thesis by (rule disjI2)
  next
    case False
    then have "collect_step env batch_size start_page n st = Continue ?st'"
      by (simp only: step if_False)
    then show ?thesis by (rule disjI1)
  qed
  have f1: "current_page ?st' = current_page st + 1" by simp
  have f2: "collected ?st' = collected st" by simp
  have f3: "db ?st' = db st" by simp
  have f4: "pages_fetched ?st' = pages_fetched st @ [current_page st]" by simp
  have b: "\<exists>st'. (collect_step env batch_size start_page n st = Continue st'
                  \<or> collect_step env batch_size start_page n st = Finished st')
               \<and> current_page st' = current_page st + 1
               \<and> collected st' = collected st
               \<and> db st' = db st
               \<and> pages_fetched st' = pages_fetched st @ [current_page st]"
    by (rule exI [of _ ?st']) (intro conjI d f1 f2 f3 f4)
  have c: "collect_loop fuel env batch_size start_page n st = Some (Inl e') \<longrightarrow>
            (\<exists>k. stop_callback env k = Inl e' \<or> progress_callback env k = Some e')"
    by (rule impI) (rule collect_loop_raises_only_from_callbacks)
  show ?thesis by (intro conjI a b c)
qed

text \<open>
  The first iteration of a run whose commit fails for page 0: the loop continues at page 1
  with nothing collected and nothing stored.
\<close>

theorem commit_failure_caught_by_page_handler_witness:
  "is_running commit_fails_once_env 0
   \<and> stop_callback commit_fails_once_env 0 = Inr False
   \<and> progress_callback commit_fails_once_env 0 = None
   \<and> results \<lparr>results = [customer_with_id 1], next_info = NextPage 1\<rparr> \<noteq> []
   \<and> commit_raises (session commit_fails_once_env 0)
   \<and> (\<exists>st'. collect_step commit_fails_once_env 1000 0 0
               \<lparr>collected = 0, failed = 0, current_page = 0, db = [], pages_fetched = []\<rparr>
             = Continue st'
           \<and> current_page st' = 1 \<and> collected st' = 0 \<and> db st' = [] \<and> pages_fetched st' = [0])"
proof -
  let ?st = "\<lparr>collected = 0, failed = 0, current_page = 0, db = [], pages_fetched = []\<rparr>
               :: unit collector_state"
  let ?r = "\<lparr>results = [customer_with_id 1], next_info = NextPage 1\<rparr>"
  have h1: "is_running commit_fails_once_env 0"
    and h2: "stop_callback commit_fails_once_env 0 = Inr False"
    and h3: "progress_callback commit_fails_once_env 0 = None"
    and h4: "get_customers commit_fails_once_env 0 (current_page ?st) = Inr ?r"
    and h5: "results ?r \<noteq> []"
    and h6: "commit_raises (session commit_fails_once_env 0)"
    by (simp_all add: commit_fails_once_env_def)
  have nf: "collect_step commit_fails_once_env 1000 0 0 ?st \<noteq> Finished st'" for st'
    by (simp add: collect_step_def commit_fails_once_env_def process_customer_batch_def
        page_failed_def Let_def split: prod.splits)
  have "\<exists>st'. (collect_step commit_fails_once_env 1000 0 0 ?st = Continue st'
                  \<or> collect_step commit_fails_once_env 1000 0 0 ?st = Finished st')
               \<and> current_page st' = current_page ?st + 1
               \<and> collected st' = collected ?st
               \<and> db st' = db ?st
               \<and> pages_fetched st' = pages_fetched ?st @ [current_page ?st]"
    using commit_failure_caught_by_page_handler
      [OF h1 h2 h3 h4 h5 h6, where batch_size = 1000 and start_page = 0 and fuel = 0
        and e' = KeyError]
    by blast
  then obtain st' where "collect_step commit_fails_once_env 1000 0 0 ?st = Continue st'"
    and "current_page st' = 1" and "collected st' = 0" and "db st' = []"
    and "pages_fetched st' = [0]"
    using nf by auto
  then show ?thesis using h1 h2 h3 h5 h6 by blast
qed

text \<open>
  C3 as stated fails. With one customer on page 0, a commit that raises for that page, an
  empty page 1 and callbacks that return, a run with batch size 1000 does not raise: it
  goes on to fetch page 1 and returns its summary (with 1000 records counted as failed for
  the batch of one).
\<close>

theorem commit_failure_reraised_counterexample:
  "collect_customers 5 commit_fails_once_env 1000 0 [] =
     Some (Inr (\<lparr>customers_collected = 0, customers_failed = 1000, final_page = 1\<rparr>,
                \<lparr>collected = 0, failed = 1000, current_page = 1, db = [],
                 pages_fetched = [0, 1]\<rparr>))
   \<and> get_customers commit_fails_once_env 0 0
       = Inr \<lparr>results = [customer_with_id 1], next_info = NextPage 1\<rparr>
   \<and> commit_raises (session commit_fails_once_env 0)"
  by (simp add: collect_customers_def collect_loop_numeral collect_step_def
      commit_fails_once_env_def process_customer_batch_def page_failed_def summary_of_def
      customer_with_id_def falsy_id_def Let_def)

text \<open>
  C2 at a failing input. Pages 0 to 9 are collected, the fetch of page 10 raises once:
  the run ends at once with \<open>final_page = 11\<close>, after a single page failure, although
  page 11 is there to be fetched.
\<close>

theorem single_failure_at_page_ten_ends_run:
  "(case collect_customers 20 page_ten_fails_env 1000 0 [] of
      Some (Inr (summary, st)) \<Rightarrow>
        summary = \<lparr>customers_collected = 10, customers_failed = 1000, final_page = 11\<rparr>
        \<and> pages_fetched st = [0, 1, 2, 3, 4, 5, 6, 7, 8, 9, 10]
    | _ \<Rightarrow> False)
   \<and> get_customers page_ten_fails_env 11 11
       = Inr \<lparr>results = [customer_with_id 12], next_info = NextPage 12\<rparr>"
  by (simp add: collect_customers_def collect_loop_numeral collect_step_def
      page_ten_fails_env_def process_customer_batch_def page_failed_def summary_of_def
      customer_with_id_def healthy_session_def falsy_id_def email_or_empty_def
      upsert_customer_def Let_def)

section \<open>Properties of the auditor\<close>

lemma db_ids_loop_raises:
  assumes "id_list \<noteq> []"
  shows "db_ids_loop tbl id_list 999 0 {} = Inl ArgumentError"
proof -
  have "take 999 (drop 0 id_list) \<noteq> []" using assms by simp
  then have "session_execute_in tbl (take 999 (drop 0 id_list)) = Inl ArgumentError"
    by (simp add: session_execute_in_def)
  moreover have "0 < length id_list" using assms by simp
  ultimately show ?thesis by (subst db_ids_loop.simps) simp
qed

lemma get_db_customer_ids_in_range_raises:
  assumes "finite expected_ids" and "expected_ids \<noteq> {}"
  shows "get_db_customer_ids_in_range tbl expected_ids = Inl ArgumentError"
proof -
  have "sorted_list_of_set expected_ids \<noteq> []"
    using assms by (simp add: sorted_list_of_set_eq_Nil_iff)
  then show ?thesis
    using assms(2) by (simp add: get_db_customer_ids_in_range_def db_ids_loop_raises)
qed

text \<open>
  C6 at a failing input. For the candidate set \<open>{1}\<close> and a table that holds the id 1, the
  lookup is required to return \<open>{1}\<close>; \<^verbatim>\<open>_get_db_customer_ids_in_range\<close> raises
  \<open>ArgumentError\<close> from its first query. It does so for every non-empty candidate set; only
  the empty set gets an answer, from the early return.
\<close>

theorem batched_lookup_raises:
  "get_db_customer_ids_in_range [staged_row 1] {1} = Inl ArgumentError
   \<and> contains_any_spec [staged_row 1] {1} = {1}
   \<and> get_db_customer_ids_in_range tbl (set (x # xs)) = Inl ArgumentError
   \<and> get_db_customer_ids_in_range tbl {} = Inr {}"
proof -
  have g: "get_db_customer_ids_in_range t (set (y # ys)) = Inl ArgumentError"
    for t :: "'b customer_row list" and y ys
    by (rule get_db_customer_ids_in_range_raises) simp_all
  have a: "get_db_customer_ids_in_range [staged_row 1] {1} = Inl ArgumentError"
    using g [of "[staged_row 1]" 1 "[]"] by simp
  have b: "contains_any_spec [staged_row 1] {1} = {1}"
    by (auto simp: contains_any_spec_def staged_row_def)
  have c: "get_db_customer_ids_in_range tbl {} = Inr {}"
    by (simp add: get_db_customer_ids_in_range_def)
  show ?thesis by (intro conjI a b g c)
qed

lemma finite_page_customer_ids: "finite (page_customer_ids customers)"
  by (simp add: page_customer_ids_def)

lemma finite_expected_audit_pages:
  "finite (expected_customer_ids acc) \<Longrightarrow> finite (expected_customer_ids (audit_pages api pages acc))"
  by (induction pages arbitrary: acc) (auto simp: finite_page_customer_ids split: sum.splits)

lemma audit_page_range_cases:
  "audit_page_range api tbl start_page end_page =
     (if expected_customer_ids (audit_pages api [start_page..end_page] audit_start) = {}
      then Inr \<lparr>r_pages_audited = pages_audited (audit_pages api [start_page..end_page] audit_start),
                missing_from_db = {},
                extra_in_db = {},
                r_api_errors = api_errors (audit_pages api [start_page..end_page] audit_start),
                r_total_api_records =
                  total_api_records (audit_pages api [start_page..end_page] audit_start),
                total_db_records = 0,
                missing_count = 0,
                extra_count = 0\<rparr>
      else Inl ArgumentError)"
proof -
  let ?acc = "audit_pages api [start_page..end_page] audit_start"
  have f: "finite (expected_customer_ids ?acc)"
    by (rule finite_expected_audit_pages) (simp add: audit_start_def)
  show ?thesis
  proof (cases "expected_customer_ids ?acc = {}")
    case True
    then show ?thesis
      by (simp add: audit_page_range_def Let_def get_db_customer_ids_in_range_def)
  next
    case False
    then have "get_db_customer_ids_in_range tbl (expected_customer_ids ?acc) = Inl ArgumentError"
      using f by (intro get_db_customer_ids_in_range_raises)
    then show ?thesis using False by (simp add: audit_page_range_def Let_def)
  qed
qed

lemma audit_pages_one_customer_api:
  "expected_customer_ids (audit_pages one_customer_api [0..0] audit_start) = {1}"
proof -
  have "[0..0] = [0::int]" by (simp add: upto.simps)
  then show ?thesis
    by (simp add: one_customer_api_def audit_start_def page_customer_ids_def
        customer_with_id_def falsy_id_def)
qed

text \<open>
  C9 at a failing input. A range audit of page 0, on which the source returns the customer
  1, against a table that holds the id 1: the claim says that the audit reports an empty
  \<open>extra_in_db\<close> and an \<open>extra_count\<close> of 0; \<^verbatim>\<open>audit_page_range\<close> raises \<open>ArgumentError\<close>
  from the lookup and returns no report. In general the audit returns a report exactly when
  it has read no id from the source, and that report has no missing and no extra ids.
\<close>

theorem range_audit_raises_on_lookup:
  "audit_page_range one_customer_api [staged_row 1] 0 0 = Inl ArgumentError
   \<and> audit_page_range api tbl start_page end_page =
       (if expected_customer_ids (audit_pages api [start_page..end_page] audit_start) = {}
        then Inr \<lparr>r_pages_audited = pages_audited (audit_pages api [start_page..end_page] audit_start),
                  missing_from_db = {},
                  extra_in_db = {},
                  r_api_errors = api_errors (audit_pages api [start_page..end_page] audit_start),
                  r_total_api_records =
                    total_api_records (audit_pages api [start_page..end_page] audit_start),
                  total_db_records = 0,
                  missing_count = 0,
                  extra_count = 0\<rparr>
        else Inl ArgumentError)"
proof -
  have a: "audit_page_range one_customer_api [staged_row 1] 0 0 = Inl ArgumentError"
    by (simp only: audit_page_range_cases audit_pages_one_customer_api) simp
  show ?thesis by (intro conjI a audit_page_range_cases)
qed

subsection \<open>Density overview\<close>

lemma stats_loop_done:
  assumes "\<not> (i < length customer_ids \<and> 0 < step)"
  shows "stats_loop customer_ids step pages_per_chunk i = []"
  by (subst stats_loop.simps) (simp only: assms if_False)

lemma stats_loop_unfold:
  assumes "i < length customer_ids" and "0 < step"
  shows "stats_loop customer_ids step pages_per_chunk i =
           \<lparr>page_range = (int (i div 1000), int (i div 1000) + pages_per_chunk - 1),
            record_count = min step (length customer_ids - i),
            first_id = hd (take step (drop i customer_ids)),
            last_id = last (take step (drop i customer_ids)),
            expected_count = pages_per_chunk * 1000\<rparr>
           # stats_loop customer_ids step pages_per_chunk (i + step)"
proof -
  have "take step (drop i customer_ids) \<noteq> []" using assms by simp
  then show ?thesis
    using assms by (subst stats_loop.simps) (simp add: Let_def min.commute)
qed

lemma length_ids_before_10201: "length ids_before_10201 = 10000"
  by (simp add: ids_before_10201_def del: upto_rec_numeral)

lemma length_ids_from_10201: "length ids_from_10201 = 10000"
  by (simp add: ids_from_10201_def del: upto_rec_numeral)

lemma hd_ids_before_10201: "hd ids_before_10201 = 1"
proof -
  have "[1..5000] = 1 # [1 + 1..5000 :: int]" by (rule upto_rec1) simp
  then show ?thesis by (simp add: ids_before_10201_def del: upto_rec_numeral)
qed

lemma last_ids_before_10201: "last ids_before_10201 = 10200"
proof -
  have "[5201..10200] = [5201..10200 - 1] @ [10200 :: int]" by (rule upto_rec2) simp
  then show ?thesis by (simp add: ids_before_10201_def del: upto_rec_numeral)
qed

lemma hd_ids_from_10201: "hd ids_from_10201 = 10201"
proof -
  have "[10201..20200] = 10201 # [10201 + 1..20200 :: int]" by (rule upto_rec1) simp
  then show ?thesis by (simp add: ids_from_10201_def del: upto_rec_numeral)
qed

lemma last_ids_from_10201: "last ids_from_10201 = 20200"
proof -
  have "[10201..20200] = [10201..20200 - 1] @ [20200 :: int]" by (rule upto_rec2) simp
  then show ?thesis by (simp add: ids_from_10201_def del: upto_rec_numeral)
qed

lemma sorted_ids_with_gap: "sorted ids_with_gap"
  by (auto simp: ids_with_gap_def ids_before_10201_def ids_from_10201_def sorted_append
      simp del: upto_rec_numeral)

lemma set_ids_with_gap: "set ids_with_gap = {1..5000} \<union> {5201..20200}"
  by (auto simp: ids_with_gap_def ids_before_10201_def ids_from_10201_def
      simp del: upto_rec_numeral)

lemma map_cratejoy_id_table_with_gap: "map cratejoy_id table_with_gap = ids_with_gap"
  by (simp add: table_with_gap_def staged_row_def comp_def)

lemma ids_table_with_gap: "sort (map cratejoy_id table_with_gap) = ids_with_gap"
  using sorted_ids_with_gap by (simp add: map_cratejoy_id_table_with_gap sorted_sort_id)

lemma first_chunk_ids_with_gap: "take 10000 ids_with_gap = ids_before_10201"
  by (simp add: ids_with_gap_def length_ids_before_10201)

lemma second_chunk_ids_with_gap: "drop 10000 ids_with_gap = ids_from_10201"
  by (simp add: ids_with_gap_def length_ids_before_10201)

lemma hd_ids_with_gap: "hd ids_with_gap = 1"
proof -
  have "ids_before_10201 \<noteq> []" using length_ids_before_10201 by auto
  then show ?thesis by (simp add: ids_with_gap_def hd_ids_before_10201)
qed

lemma stats_table_with_gap:
  "get_database_stats_by_page_range 10 table_with_gap =
     Inr [\<lparr>page_range = (0, 9), record_count = 10000, first_id = 1, last_id = 10200,
           expected_count = 10000\<rparr>,
          \<lparr>page_range = (10, 19), record_count = 10000, first_id = 10201, last_id = 20200,
           expected_count = 10000\<rparr>]"
proof -
  have len: "length ids_with_gap = 20000"
    by (simp add: ids_with_gap_def length_ids_before_10201 length_ids_from_10201)
  have s0: "stats_loop ids_with_gap 10000 10 0 =
              \<lparr>page_range = (0, 9), record_count = 10000, first_id = 1, last_id = 10200,
                expected_count = 10000\<rparr> # stats_loop ids_with_gap 10000 10 10000"
    using stats_loop_unfold [of 0 ids_with_gap 10000 10]
    by (simp add: len first_chunk_ids_with_gap hd_ids_with_gap hd_ids_before_10201
        last_ids_before_10201)
  have s1: "stats_loop ids_with_gap 10000 10 10000 =
              \<lparr>page_range = (10, 19), record_count = 10000, first_id = 10201, last_id = 20200,
                expected_count = 10000\<rparr> # stats_loop ids_with_gap 10000 10 20000"
    using stats_loop_unfold [of 10000 ids_with_gap 10000 10]
    by (simp add: len second_chunk_ids_with_gap length_ids_from_10201 hd_ids_from_10201
        last_ids_from_10201)
  have s2: "stats_loop ids_with_gap 10000 10 20000 = []"
    by (rule stats_loop_done) (simp add: len)
  show ?thesis
    by (simp add: get_database_stats_by_page_range_def ids_table_with_gap s0 s1 s2)
qed

lemma missing_interval_table_with_gap:
  "set (map cratejoy_id table_with_gap) \<inter> {5001..5200} = {}"
  by (auto simp: map_cratejoy_id_table_with_gap set_ids_with_gap)

text \<open>
  C8 at a failing input. The ids 1 to 5000 and 5201 to 20200 are staged, the 200 ids from
  5001 to 5200 are missing, and the overview is taken with 10 pages per chunk, as
  \<^verbatim>\<open>run_database_overview\<close> takes it. The chunk that covers the region of the gap, from id 1
  to id 10200, reports 10000 records for 10000 expected: its difference is 0, not negative,
  and no chunk is listed among the problems. The chunks are cut by position in the
  ascending list of ids, so the ids after the gap fill the chunk.
\<close>

theorem density_overview_misses_gap:
  "get_database_stats_by_page_range 10 table_with_gap =
     Inr [\<lparr>page_range = (0, 9), record_count = 10000, first_id = 1, last_id = 10200,
           expected_count = 10000\<rparr>,
          \<lparr>page_range = (10, 19), record_count = 10000, first_id = 10201, last_id = 20200,
           expected_count = 10000\<rparr>]
   \<and> set (map cratejoy_id table_with_gap) \<inter> {5001..5200} = {}
   \<and> difference \<lparr>page_range = (0, 9), record_count = 10000, first_id = 1, last_id = 10200,
           expected_count = 10000\<rparr> = 0
   \<and> problems [\<lparr>page_range = (0, 9), record_count = 10000, first_id = 1, last_id = 10200,
           expected_count = 10000\<rparr>,
          \<lparr>page_range = (10, 19), record_count = 10000, first_id = 10201, last_id = 20200,
           expected_count = 10000\<rparr>] = []"
proof -
  have d: "difference \<lparr>page_range = (0, 9), record_count = 10000, first_id = 1, last_id = 10200,
           expected_count = 10000\<rparr> = 0"
    by (simp add: difference_def)
  have p: "problems [\<lparr>page_range = (0, 9), record_count = 10000, first_id = 1, last_id = 10200,
           expected_count = 10000\<rparr>,
          \<lparr>page_range = (10, 19), record_count = 10000, first_id = 10201, last_id = 20200,
           expected_count = 10000\<rparr>] = []"
    by (simp add: problems_def difference_def)
  show ?thesis
    by (intro conjI stats_table_with_gap missing_interval_table_with_gap d p)
qed

section \<open>Properties of the migration orchestrator\<close>

lemma orders_attempted_append:
  "orders_attempted (as @ bs) = orders_attempted as @ orders_attempted bs"
  by (induction as rule: orders_attempted.induct) simp_all

lemma create_order_calls_append:
  "create_order_calls (as @ bs) = create_order_calls as @ create_order_calls bs"
  by (induction as rule: create_order_calls.induct) simp_all

lemma migrate_orders_attempts_all:
  "migrate_orders env cid os s = (n, tr, s') \<Longrightarrow> orders_attempted tr = os"
proof (induction os arbitrary: s n tr s')
  case Nil
  then show ?case by simp
next
  case (Cons order os)
  from Cons.prems show ?case
    by (auto split: sum.splits prod.splits option.splits dest: Cons.IH)
qed

lemma migrate_orders_creates_all_mapped:
  "migrate_orders env cid os s = (n, tr, s') \<Longrightarrow> create_order_calls tr = mapped_orders env cid os"
proof (induction os arbitrary: s n tr s')
  case Nil
  then show ?case by simp
next
  case (Cons order os)
  from Cons.prems show ?case
    by (auto split: sum.splits prod.splits option.splits dest: Cons.IH)
qed

lemma length_mapped_orders:
  "\<forall>order \<in> set os. \<exists>m. map_order env order cid = Inr m \<Longrightarrow>
   length (mapped_orders env cid os) = length os"
  by (induction os) auto

lemma migrate_single_customer_created:
  assumes "map_customer env (cd_customer data) = Inr mc"
    and "create_customer env mc s = (Inr (Some cid), s1)"
    and "add_customer_tags env cid s1 = (tag_error, s2)"
    and "migrate_orders env cid (cd_orders data) s2 = (n, tr, s3)"
  shows "success (migrate_single_customer env False data s)
       \<and> orders_migrated (migrate_single_customer env False data s) = n
       \<and> calls (migrate_single_customer env False data s) =
           [Call_create_customer mc, Call_add_customer_tags cid] @ tr
           @ (if has_subscription_status env (cd_customer data)
              then [Call_create_customer_metafield cid] else [])"
  using assms by (simp add: migrate_single_customer_def split: prod.splits)

text \<open>
  C1. For every migration unit whose target customer is created (the mapping of the
  customer does not raise and the created customer carries an id), in a run that is not a
  dry run: the unit reports success and is counted as migrated, whatever happens to its
  orders; every owned order is attempted, in order, whatever happened to the orders
  before it; \<^verbatim>\<open>create_order\<close> is called for every order whose mapping does not raise (for
  every order when no mapping raises); and the calls of the unit begin with the creation
  of the customer and contain no call that undoes it or an order.
\<close>

theorem partial_isolation_in_migration:
  assumes "map_customer env (cd_customer data) = Inr mc"
    and "create_customer env mc s = (Inr (Some cid), s1)"
  shows "success (migrate_single_customer env False data s)
       \<and> orders_attempted (calls (migrate_single_customer env False data s)) = cd_orders data
       \<and> create_order_calls (calls (migrate_single_customer env False data s))
           = mapped_orders env cid (cd_orders data)
       \<and> ((\<forall>order \<in> set (cd_orders data). \<exists>m. map_order env order cid = Inr m) \<longrightarrow>
            length (create_order_calls (calls (migrate_single_customer env False data s)))
              = length (cd_orders data))
       \<and> take 1 (calls (migrate_single_customer env False data s)) = [Call_create_customer mc]
       \<and> fst (migrate_unit env False (Some data) (migrated, failed_units, s)) = migrated + 1
       \<and> fst (snd (migrate_unit env False (Some data) (migrated, failed_units, s))) = failed_units"
proof -
  obtain tag_error s2 where t: "add_customer_tags env cid s1 = (tag_error, s2)"
    by (cases "add_customer_tags env cid s1")
  obtain n tr s3 where m: "migrate_orders env cid (cd_orders data) s2 = (n, tr, s3)"
    by (cases "migrate_orders env cid (cd_orders data) s2")
  note r = migrate_single_customer_created [OF assms t m]
  have att: "orders_attempted tr = cd_orders data"
    using m by (rule migrate_orders_attempts_all)
  have cre: "create_order_calls tr = mapped_orders env cid (cd_orders data)"
    using m by (rule migrate_orders_creates_all_mapped)
  have a: "success (migrate_single_customer env False data s)"
    using r by blast
  have b: "orders_attempted (calls (migrate_single_customer env False data s)) = cd_orders data"
    using r att by (simp add: orders_attempted_append)
  have c: "create_order_calls (calls (migrate_single_customer env False data s))
             = mapped_orders env cid (cd_orders data)"
    using r cre by (simp add: create_order_calls_append)
  have d: "(\<forall>order \<in> set (cd_orders data). \<exists>m. map_order env order cid = Inr m) \<longrightarrow>
            length (create_order_calls (calls (migrate_single_customer env False data s)))
              = length (cd_orders data)"
    unfolding c using length_mapped_orders by blast
  have e: "take 1 (calls (migrate_single_customer env False data s)) = [Call_create_customer mc]"
    using r by simp
  have f: "fst (migrate_unit env False (Some data) (migrated, failed_units, s)) = migrated + 1"
    and g: "fst (snd (migrate_unit env False (Some data) (migrated, failed_units, s))) = failed_units"
    using a by (simp_all add: migrate_unit_def Let_def)
  from a b c d e f g show ?thesis by blast
qed

text \<open>
  The scenario of the specification: three orders, the target rejects the second. The unit
  succeeds, all three orders are attempted, two are migrated and one failure is logged.
\<close>

theorem partial_isolation_in_migration_witness:
  "map_customer second_order_rejected (cd_customer \<lparr>cd_customer = 7, cd_orders = [10, 20, 30]\<rparr>)
     = Inr 7
   \<and> create_customer second_order_rejected 7 0 = (Inr (Some 900), 0)
   \<and> migrate_single_customer second_order_rejected False
        \<lparr>cd_customer = 7, cd_orders = [10, 20, 30]\<rparr> 0
      = \<lparr>success = True, orders_migrated = 2,
         calls = [Call_create_customer 7, Call_add_customer_tags 900,
                  Call_map_order 10, Call_create_order 10,
                  Call_map_order 20, Call_create_order 20, Warn_order_failed 20 (HTTPError 422),
                  Call_map_order 30, Call_create_order 30],
         target = 3\<rparr>
   \<and> orders_attempted (calls (migrate_single_customer second_order_rejected False
        \<lparr>cd_customer = 7, cd_orders = [10, 20, 30]\<rparr> 0)) = [10, 20, 30]
   \<and> create_order_calls (calls (migrate_single_customer second_order_rejected False
        \<lparr>cd_customer = 7, cd_orders = [10, 20, 30]\<rparr> 0)) = [10, 20, 30]
   \<and> migrate_unit second_order_rejected False
        (Some \<lparr>cd_customer = 7, cd_orders = [10, 20, 30]\<rparr>) (0, 0, 0) = (1, 0, 3)"
proof -
  let ?d = "\<lparr>cd_customer = 7 :: int, cd_orders = [10, 20, 30 :: int]\<rparr>"
  have h1: "map_customer second_order_rejected (cd_customer ?d) = Inr 7"
    by (simp add: second_order_rejected_def)
  have h2: "create_customer second_order_rejected 7 0 = (Inr (Some 900), 0)"
    by (simp add: second_order_rejected_def)
  have run: "migrate_single_customer second_order_rejected False ?d 0
      = \<lparr>success = True, orders_migrated = 2,
         calls = [Call_create_customer 7, Call_add_customer_tags 900,
                  Call_map_order 10, Call_create_order 10,
                  Call_map_order 20, Call_create_order 20, Warn_order_failed 20 (HTTPError 422),
                  Call_map_order 30, Call_create_order 30],
         target = 3\<rparr>"
    by (simp add: migrate_single_customer_def second_order_rejected_def numeral_eq_Suc)
  have mo: "mapped_orders second_order_rejected 900 [10, 20, 30] = [10, 20, 30]"
    by (simp add: second_order_rejected_def)
  have mu: "migrate_unit second_order_rejected False (Some ?d) (0, 0, 0) = (1, 0, 3)"
    by (simp add: migrate_unit_def run Let_def)
  show ?thesis
    using partial_isolation_in_migration [OF h1 h2, of 0 0] h1 h2 run mu
    by (simp add: mo)
qed

end
